theory Spec2Isabelle
  imports Main "HOL-Library.Word" "HOL-Library.AList" "HOL-Library.Multiset"
begin

unbundle bit_operations_syntax

section \<open>The daemon (uniqued.c)\<close>

subsection \<open>Data model\<close>

text \<open>
  \<open>gsize\<close> is an unsigned 64-bit integer (LP64) and wraps around; \<open>guint32\<close> wraps
  around as well. \<open>gint32\<close> handles and descriptor numbers are only compared and used
  as indices, never computed with, so they are plain integers. The reference count is a
  C \<open>int\<close>: incrementing it beyond \<open>INT_MAX\<close> (or decrementing below \<open>INT_MIN\<close>) is
  undefined behaviour, which the model reports as a value.
\<close>

type_synonym gsize = "64 word"
type_synonym guint32 = "32 word"
type_synonym gint32 = int

text \<open>
  A \<open>Blob *\<close> is represented by the digest string under which \<open>blob_new\<close> files the
  object in the \<open>blobs\<close> table: \<open>blob_new\<close> is the only allocator of \<open>Blob\<close> objects
  and \<open>blob_unref\<close> the only deallocator, and they enter the object into the table and
  take it out in the same breath. The table is therefore also the heap of \<open>Blob\<close>
  objects; peers hold pointers into it, and a pointer whose object is gone is dangling.
  A \<open>Peer *\<close> is represented in the same way by the peer's name.
\<close>

type_synonym blob_ptr = string

record Blob =
  sha256 :: string
  len :: gsize
  fd :: int
  ref_count :: int

record Peer =
  name :: string
  next_blob_id :: guint32
  peer_blobs :: "(guint32 \<times> blob_ptr) list"

record daemon =
  real_blob_size :: gsize
  apparent_blob_size :: gsize
  peers :: "(string \<times> Peer) list"
  blobs :: "(string \<times> Blob) list"

text \<open>The state \<open>main\<close> sets up: two empty hash tables, both counters zero.\<close>

definition daemon_init :: daemon where
  "daemon_init = \<lparr>real_blob_size = 0, apparent_blob_size = 0, peers = [], blobs = []\<rparr>"

datatype undefined_behaviour = Signed_overflow | Use_after_free | Out_of_bounds_read

definition INT_MAX :: int where "INT_MAX = 2147483647"
definition INT_MIN :: int where "INT_MIN = - 2147483648"

text \<open>Sequencing of steps that may have no defined result.\<close>

definition and_then :: "'e + 'a \<Rightarrow> ('a \<Rightarrow> 'e + 'b) \<Rightarrow> 'e + 'b" where
  "and_then m f = (case m of Inl e \<Rightarrow> Inl e | Inr x \<Rightarrow> f x)"

subsection \<open>What the handlers ask of their environment\<close>

text \<open>
  The answers of the kernel and of GLib to the calls a handler makes on a descriptor:
  \<open>fcntl (fd, F_GET_SEALS)\<close> (an \<open>int\<close>, \<open>-1\<close> on error, read into an \<open>unsigned int\<close>),
  the bytes behind the descriptor and the offsets at which \<open>pread\<close> returns \<open>-1\<close>,
  \<open>st_size\<close> when \<open>fstat\<close> returns 0, whether \<open>g_unix_fd_list_append\<close> fails, and the
  SHA-256 hex digest that \<open>GChecksum\<close> computes.
\<close>

record env =
  fcntl_get_seals :: "int \<Rightarrow> 32 word"
  file_data :: "int \<Rightarrow> 8 word list"
  pread_fails :: "int \<Rightarrow> nat \<Rightarrow> bool"
  fstat_size :: "int \<Rightarrow> gsize option"
  fd_list_append_fails :: bool
  sha256_hex :: "8 word list \<Rightarrow> string"

subsection \<open>Blob store\<close>

definition blob_ref :: "blob_ptr \<Rightarrow> daemon \<Rightarrow> undefined_behaviour + daemon" where
  "blob_ref p s =
     (case map_of (blobs s) p of
        None \<Rightarrow> Inl Use_after_free
      | Some b \<Rightarrow>
          if ref_count b \<ge> INT_MAX then Inl Signed_overflow
          else Inr (s\<lparr>blobs := AList.update p (b\<lparr>ref_count := ref_count b + 1\<rparr>) (blobs s)\<rparr>))"

definition blob_unref :: "blob_ptr \<Rightarrow> daemon \<Rightarrow> undefined_behaviour + daemon" where
  "blob_unref p s =
     (case map_of (blobs s) p of
        None \<Rightarrow> Inl Use_after_free
      | Some b \<Rightarrow>
          if ref_count b \<le> INT_MIN then Inl Signed_overflow
          else if ref_count b - 1 = 0
          then Inr (s\<lparr>real_blob_size := real_blob_size s - len b,
                      blobs := AList.delete p (AList.delete (sha256 b) (blobs s))\<rparr>)
          else Inr (s\<lparr>blobs := AList.update p (b\<lparr>ref_count := ref_count b - 1\<rparr>) (blobs s)\<rparr>))"

definition blob_new :: "env \<Rightarrow> int \<Rightarrow> string \<Rightarrow> daemon \<Rightarrow> blob_ptr \<times> daemon" where
  "blob_new E fd0 sha s =
     (let b = \<lparr>sha256 = sha,
               len = (case fstat_size E fd0 of Some sz \<Rightarrow> sz | None \<Rightarrow> 0),
               fd = fd0, ref_count = 1\<rparr>
      in (sha, s\<lparr>real_blob_size := real_blob_size s + len b,
                 blobs := AList.update (sha256 b) b (blobs s)\<rparr>))"

definition lookup_blob :: "string \<Rightarrow> daemon \<Rightarrow> undefined_behaviour + (blob_ptr option \<times> daemon)" where
  "lookup_blob sha s =
     (case map_of (blobs s) sha of
        Some b \<Rightarrow> and_then (blob_ref sha s) (\<lambda>s'. Inr (Some sha, s'))
      | None \<Rightarrow> Inr (None, s))"

definition removed_blob_from_peer_cb :: "blob_ptr \<Rightarrow> daemon \<Rightarrow> undefined_behaviour + daemon" where
  "removed_blob_from_peer_cb p s =
     (case map_of (blobs s) p of
        None \<Rightarrow> Inl Use_after_free
      | Some b \<Rightarrow> blob_unref p (s\<lparr>apparent_blob_size := apparent_blob_size s - len b\<rparr>))"

subsection \<open>Peer table\<close>

definition lookup_peer :: "string \<Rightarrow> daemon \<Rightarrow> Peer \<times> daemon" where
  "lookup_peer nm s =
     (case map_of (peers s) nm of
        Some peer \<Rightarrow> (peer, s)
      | None \<Rightarrow>
          (let peer = \<lparr>name = nm, next_blob_id = 1, peer_blobs = []\<rparr>
           in (peer, s\<lparr>peers := AList.update (name peer) peer (peers s)\<rparr>)))"

text \<open>
  \<open>g_hash_table_destroy (peer->blobs)\<close>: the value destroy function runs on every entry.
\<close>

fun destroy_values :: "blob_ptr list \<Rightarrow> daemon \<Rightarrow> undefined_behaviour + daemon" where
  "destroy_values [] s = Inr s"
| "destroy_values (q # qs) s = and_then (removed_blob_from_peer_cb q s) (destroy_values qs)"

definition peer_free :: "Peer \<Rightarrow> daemon \<Rightarrow> undefined_behaviour + daemon" where
  "peer_free peer s = destroy_values (map snd (peer_blobs peer)) s"

text \<open>
  \<open>g_hash_table_insert\<close> on a table with a value destroy function: an entry already
  filed under the key is replaced and its old value handed to the destroy function.
\<close>

definition add_blob_to_peer ::
  "string \<Rightarrow> blob_ptr \<Rightarrow> daemon \<Rightarrow> undefined_behaviour + (guint32 \<times> daemon)" where
  "add_blob_to_peer peer_name p s =
     (let (peer, s1) = lookup_peer peer_name s;
          blob_id = next_blob_id peer;
          peer1 = peer\<lparr>next_blob_id := blob_id + 1\<rparr>
      in case map_of (blobs s1) p of
           None \<Rightarrow> Inl Use_after_free
         | Some b \<Rightarrow>
             and_then (blob_ref p (s1\<lparr>apparent_blob_size := apparent_blob_size s1 + len b\<rparr>))
               (\<lambda>s2. let old = map_of (peer_blobs peer1) blob_id;
                         peer2 = peer1\<lparr>peer_blobs := AList.update blob_id p (peer_blobs peer1)\<rparr>;
                         s3 = s2\<lparr>peers := AList.update peer_name peer2 (peers s2)\<rparr>
                     in case old of
                          None \<Rightarrow> Inr (blob_id, s3)
                        | Some q \<Rightarrow>
                            and_then (removed_blob_from_peer_cb q s3) (\<lambda>s4. Inr (blob_id, s4))))"

definition remove_blob_from_peer ::
  "string \<Rightarrow> guint32 \<Rightarrow> daemon \<Rightarrow> undefined_behaviour + daemon" where
  "remove_blob_from_peer peer_name blob_id s =
     (let (peer, s1) = lookup_peer peer_name s
      in case map_of (peer_blobs peer) blob_id of
           None \<Rightarrow> Inr s1
         | Some q \<Rightarrow>
             removed_blob_from_peer_cb q
               (s1\<lparr>peers := AList.update peer_name
                               (peer\<lparr>peer_blobs := AList.delete blob_id (peer_blobs peer)\<rparr>)
                               (peers s1)\<rparr>))"

subsection \<open>Requests and replies\<close>

text \<open>
  The parameters of a call are a \<open>GVariant\<close>; the handlers only ask whether it has type
  \<open>(h)\<close> or \<open>(u)\<close> and then read the one field. A message may carry a descriptor list
  (\<open>NULL\<close> when none is attached).
\<close>

datatype gvariant = Tuple_h gint32 | Tuple_u guint32 | Other_type

record message =
  parameters :: gvariant
  unix_fd_list :: "int list option"

datatype dbus_error =
  G_DBUS_ERROR_INVALID_ARGS | G_DBUS_ERROR_FAILED | G_DBUS_ERROR_UNKNOWN_METHOD

text \<open>
  A handler answers with an error, with \<open>(ahu)\<close> and a descriptor list, or with the
  empty tuple. The descriptors of a returned list are duplicates made by
  \<open>g_unix_fd_list_append\<close>; the model names each by the descriptor it duplicates.
\<close>

datatype reply =
    Return_error dbus_error string
  | Return_ahu "gint32 list" guint32 "int list"
  | Return_unit

subsection \<open>Reading the descriptor\<close>

text \<open>The seal bits of \<open>fcntl.h\<close> on Linux.\<close>

definition F_SEAL_SEAL :: "32 word" where "F_SEAL_SEAL = 1"
definition F_SEAL_SHRINK :: "32 word" where "F_SEAL_SHRINK = 2"
definition F_SEAL_GROW :: "32 word" where "F_SEAL_GROW = 4"
definition F_SEAL_WRITE :: "32 word" where "F_SEAL_WRITE = 8"

definition ALL_SEALS :: "32 word" where
  "ALL_SEALS = F_SEAL_SEAL OR F_SEAL_SHRINK OR F_SEAL_GROW OR F_SEAL_WRITE"

text \<open>
  \<open>fds[handle]\<close> with a negative \<open>handle\<close> reads in front of the array: the bound
  check of the source only excludes \<open>handle >= length\<close>.
\<close>

definition steal_one_fd_from_list :: "int list option \<Rightarrow> gint32 \<Rightarrow> undefined_behaviour + int" where
  "steal_one_fd_from_list fd_list handle =
     (case fd_list of
        None \<Rightarrow> Inr (- 1)
      | Some fds \<Rightarrow>
          if handle \<ge> int (length fds) then Inr (- 1)
          else if handle < 0 then Inl Out_of_bounds_read
          else Inr (fds ! nat handle))"

text \<open>
  The \<open>do \<dots> while (res > 0)\<close> loop over \<open>pread\<close> with a 64 KiB buffer. The checksum
  object is the sequence of bytes fed to it so far; \<open>None\<close> is the result \<open>FALSE\<close>.
\<close>

function checksum_from_fd :: "env \<Rightarrow> int \<Rightarrow> 8 word list \<Rightarrow> nat \<Rightarrow> 8 word list option" where
  "checksum_from_fd E fd0 checksum offset =
     (if pread_fails E fd0 offset then None
      else let buf = take 65536 (drop offset (file_data E fd0))
           in if length buf > 0
              then checksum_from_fd E fd0 (checksum @ buf) (offset + length buf)
              else Some checksum)"
  by pat_completeness auto
termination
  by (relation "measure (\<lambda>(E, fd0, checksum, offset). length (file_data E fd0) - offset)") auto

declare checksum_from_fd.simps [simp del]

subsection \<open>Method handlers\<close>

definition make_unique ::
  "env \<Rightarrow> string \<Rightarrow> message \<Rightarrow> daemon \<Rightarrow> undefined_behaviour + (reply \<times> daemon)" where
  "make_unique E sender msg s =
     (case parameters msg of
        Tuple_h handle \<Rightarrow>
          and_then (steal_one_fd_from_list (unix_fd_list msg) handle) (\<lambda>fd0.
            if fd0 = - 1
            then Inr (Return_error G_DBUS_ERROR_INVALID_ARGS ''No fd passed'', s)
            else
              let seals = fcntl_get_seals E fd0
              in if seals = - 1 \<or> seals AND ALL_SEALS \<noteq> ALL_SEALS
                 then Inr (Return_error G_DBUS_ERROR_INVALID_ARGS ''Fd not sealed'', s)
                 else
                   case checksum_from_fd E fd0 [] 0 of
                     None \<Rightarrow> Inr (Return_error G_DBUS_ERROR_INVALID_ARGS ''Can't read data'', s)
                   | Some checksum \<Rightarrow>
                       let sha = sha256_hex E checksum
                       in and_then (lookup_blob sha s) (\<lambda>(blob, s1).
                            case blob of
                              None \<Rightarrow>
                                let (p, s2) = blob_new E fd0 sha s1
                                in and_then (add_blob_to_peer sender p s2) (\<lambda>(blob_id, s3).
                                   and_then (blob_unref p s3) (\<lambda>s4.
                                     Inr (Return_ahu [] blob_id [], s4)))
                            | Some p \<Rightarrow>
                                (case map_of (blobs s1) p of
                                   None \<Rightarrow> Inl Use_after_free
                                 | Some b \<Rightarrow>
                                     if fd_list_append_fails E
                                     then and_then (blob_unref p s1) (\<lambda>s2.
                                            Inr (Return_error G_DBUS_ERROR_FAILED
                                                   ''Failed to dup fd'', s2))
                                     else
                                       and_then (add_blob_to_peer sender p s1) (\<lambda>(blob_id, s2).
                                       and_then (blob_unref p s2) (\<lambda>s3.
                                         Inr (Return_ahu [0] blob_id [fd b], s3))))))
      | _ \<Rightarrow> Inr (Return_error G_DBUS_ERROR_INVALID_ARGS ''Wrong argument types'', s))"

definition forget ::
  "string \<Rightarrow> message \<Rightarrow> daemon \<Rightarrow> undefined_behaviour + (reply \<times> daemon)" where
  "forget sender msg s =
     (case parameters msg of
        Tuple_u blob_id \<Rightarrow>
          and_then (remove_blob_from_peer sender blob_id s) (\<lambda>s1. Inr (Return_unit, s1))
      | _ \<Rightarrow> Inr (Return_error G_DBUS_ERROR_INVALID_ARGS ''Wrong argument types'', s))"

definition method_call ::
  "env \<Rightarrow> string \<Rightarrow> string \<Rightarrow> string \<Rightarrow> message \<Rightarrow> daemon
     \<Rightarrow> undefined_behaviour + (reply \<times> daemon)" where
  "method_call E sender interface_name method_name msg s =
     (if method_name = ''MakeUnique'' then make_unique E sender msg s
      else if method_name = ''Forget'' then forget sender msg s
      else Inr (Return_error G_DBUS_ERROR_UNKNOWN_METHOD
                  (''Method '' @ method_name @ '' is not implemented on interface ''
                     @ interface_name), s))"

subsection \<open>Peer death\<close>

text \<open>
  \<open>g_hash_table_remove (peers, name)\<close> takes the peer out of the table and hands it to
  \<open>peer_free\<close>, the table's value destroy function.
\<close>

definition name_owner_changed ::
  "string \<Rightarrow> string \<Rightarrow> string \<Rightarrow> daemon \<Rightarrow> undefined_behaviour + daemon" where
  "name_owner_changed nm from to s =
     (if (case nm of [] \<Rightarrow> False | c # _ \<Rightarrow> c = CHR '':'') \<and> nm = from \<and> to = []
      then (case map_of (peers s) nm of
              None \<Rightarrow> Inr s
            | Some peer \<Rightarrow> peer_free peer (s\<lparr>peers := AList.delete nm (peers s)\<rparr>))
      else Inr s)"

subsection \<open>Runs of the daemon\<close>

text \<open>
  The main loop handles one event at a time: a method call on the daemon's object, or a
  \<open>NameOwnerChanged\<close> signal of the bus.
\<close>

datatype event =
    Method_call env string string string message
  | Name_owner_changed string string string

fun handle_event :: "event \<Rightarrow> daemon \<Rightarrow> undefined_behaviour + daemon" where
  "handle_event (Method_call E sender interface_name method_name msg) s =
     and_then (method_call E sender interface_name method_name msg s) (\<lambda>(r, s1). Inr s1)"
| "handle_event (Name_owner_changed nm from to) s = name_owner_changed nm from to s"

fun run :: "event list \<Rightarrow> daemon \<Rightarrow> undefined_behaviour + daemon" where
  "run [] s = Inr s"
| "run (e # es) s = and_then (handle_event e s) (run es)"
section \<open>The client library (unique-bytes.c)\<close>

subsection \<open>Data model\<close>

text \<open>
  The mapping record \<open>MappedData\<close>. Its fields are \<open>ref_count\<close>, \<open>data\<close>, \<open>len\<close> and
  \<open>id\<close> in the source; they carry a prefix here because \<open>Blob\<close> has fields of the
  same names. \<open>guint\<close> wraps around; a \<open>gpointer\<close> is a 64-bit address.
\<close>

type_synonym gpointer = "64 word"

record MappedData =
  md_ref_count :: "32 word"
  md_data :: gpointer
  md_len :: gsize
  md_id :: guint32

text \<open>
  The calls the modelled functions make on the kernel and on the bus, in the order they
  are made. The descriptors that \<open>steal_one_fd_from_list\<close> closes on the way are not
  recorded.
\<close>

datatype syscall =
    Mmap gpointer gsize "32 word" "32 word" int "64 word"
  | Munmap gpointer gsize
  | Close int
  | Call_forget guint32

text \<open>The protection and mapping flags of \<open>sys/mman.h\<close> on Linux.\<close>

definition PROT_READ :: "32 word" where "PROT_READ = 1"
definition MAP_PRIVATE :: "32 word" where "MAP_PRIVATE = 2"
definition MAP_FIXED :: "32 word" where "MAP_FIXED = 16"

text \<open>
  What the client is told from outside during one submission: whether \<open>get_bus\<close> has a
  connection, what \<open>create_sealed_memfd_for_data\<close> and \<open>g_unix_fd_list_append\<close> return,
  the reply to \<open>MakeUnique\<close> (\<open>NULL\<close> on error or timeout, otherwise the array of
  handles and the \<open>u\<close>) with its descriptor list, and the address \<open>mmap\<close> returns.
\<close>

record ipc =
  bus_available :: bool
  create_sealed_memfd_result :: int
  fd_list_append_result :: int
  response :: "(gint32 list \<times> guint32) option"
  response_fd_list :: "int list option"
  mmap_result :: gpointer

text \<open>A handler stops early when an assertion fails or its behaviour is undefined.\<close>

datatype client_stop = Assertion_failed | Undefined undefined_behaviour

subsection \<open>The mapping record\<close>

definition mapped_data_new :: "gpointer \<Rightarrow> gsize \<Rightarrow> MappedData" where
  "mapped_data_new data0 len0 = \<lparr>md_ref_count = 1, md_data = data0, md_len = len0, md_id = 0\<rparr>"

definition mapped_data_ref :: "MappedData \<Rightarrow> MappedData" where
  "mapped_data_ref d = d\<lparr>md_ref_count := md_ref_count d + 1\<rparr>"

definition call_forget :: "ipc \<Rightarrow> guint32 \<Rightarrow> syscall list" where
  "call_forget I id0 = (if bus_available I then [Call_forget id0] else [])"

text \<open>The result is \<open>None\<close> when the record has been freed.\<close>

definition mapped_data_unref :: "ipc \<Rightarrow> MappedData \<Rightarrow> MappedData option \<times> syscall list" where
  "mapped_data_unref I d =
     (let d1 = d\<lparr>md_ref_count := md_ref_count d - 1\<rparr>
      in if md_ref_count d1 = 0
         then (None, Munmap (md_data d1) (md_len d1)
                       # (if md_id d1 \<noteq> 0 then call_forget I (md_id d1) else []))
         else (Some d1, []))"

subsection \<open>Synchronous submission\<close>

text \<open>
  \<open>call_make_unique\<close> yields its return value, the descriptor left in \<open>*memfd\<close> and the
  value left in \<open>*id_out\<close>. The source assigns \<open>result = TRUE\<close> on a reply, but the
  statement after the \<open>if\<close> block is an unconditional \<open>return FALSE\<close>; the
  \<open>return result\<close> behind it is never reached.
\<close>

definition call_make_unique ::
  "ipc \<Rightarrow> int \<Rightarrow> guint32 \<Rightarrow> client_stop + (bool \<times> int \<times> guint32 \<times> syscall list)" where
  "call_make_unique I memfd id_out =
     (if \<not> bus_available I then Inr (False, memfd, id_out, [])
      else if fd_list_append_result I \<noteq> - 1
      then (case response I of
              Some (handle_iter, id0) \<Rightarrow>
                (case handle_iter of
                   handle_v # _ \<Rightarrow>
                     (case steal_one_fd_from_list (response_fd_list I) handle_v of
                        Inl u \<Rightarrow> Inl (Undefined u)
                      | Inr new_memfd \<Rightarrow>
                          if new_memfd \<noteq> - 1
                          then Inr (False, new_memfd, id0, [Close memfd])
                          else Inr (False, memfd, id0, []))
                 | [] \<Rightarrow> Inr (False, memfd, id0, []))
            | None \<Rightarrow> Inr (False, memfd, id_out, []))
      else Inr (False, memfd, id_out, []))"

text \<open>What \<open>g_bytes_new_unique_sync\<close> hands back: a heap copy, or a view of a mapping.\<close>

datatype gbytes = Heap_copy "8 word list" | Mapped gpointer gsize MappedData

definition g_bytes_new_unique_sync ::
  "ipc \<Rightarrow> 8 word list \<Rightarrow> gsize \<Rightarrow> client_stop + (gbytes \<times> syscall list)" where
  "g_bytes_new_unique_sync I data0 len0 =
     (let memfd = create_sealed_memfd_result I
      in if memfd \<ge> 0
         then (case call_make_unique I memfd 0 of
                 Inl e \<Rightarrow> Inl e
               | Inr (ok, memfd1, id1, effs) \<Rightarrow>
                   let (memfd_data, effs1) =
                         (if ok then (mmap_result I, [Mmap 0 len0 PROT_READ MAP_PRIVATE memfd1 0])
                          else (0, []))
                   in if memfd_data \<noteq> 0
                      then Inr (Mapped memfd_data len0 ((mapped_data_new memfd_data len0)\<lparr>md_id := id1\<rparr>),
                                effs @ effs1 @ [Close memfd1])
                      else Inr (Heap_copy data0, effs @ effs1 @ [Close memfd1]))
         else Inr (Heap_copy data0, []))"

subsection \<open>The reply handler of the asynchronous submission\<close>

definition make_unique_cb ::
  "ipc \<Rightarrow> MappedData \<Rightarrow> client_stop + (MappedData option \<times> syscall list)" where
  "make_unique_cb I mapped_data =
     (case response I of
        None \<Rightarrow> Inr (mapped_data_unref I mapped_data)
      | Some (handle_iter, id0) \<Rightarrow>
          (case (case handle_iter of
                   [] \<Rightarrow> Inr []
                 | handle_v # _ \<Rightarrow>
                     (case steal_one_fd_from_list (response_fd_list I) handle_v of
                        Inl u \<Rightarrow> Inl (Undefined u)
                      | Inr new_memfd \<Rightarrow>
                          if new_memfd \<noteq> - 1
                          then (if mmap_result I = md_data mapped_data
                                then Inr [Mmap (md_data mapped_data) (md_len mapped_data) PROT_READ
                                            (MAP_PRIVATE OR MAP_FIXED) new_memfd 0,
                                          Close new_memfd]
                                else Inl Assertion_failed)
                          else Inr [])) of
             Inl e \<Rightarrow> Inl e
           | Inr effs \<Rightarrow>
               (let (d, effs1) = mapped_data_unref I (mapped_data\<lparr>md_id := id0\<rparr>)
                in Inr (d, effs @ effs1))))"

section \<open>Observations and invariants\<close>

text \<open>
  The handle entries of all peers, as triples of peer name, handle and blob pointer; the
  number of entries that point at a blob; the length of the blob behind a pointer.
\<close>

definition handle_entries :: "daemon \<Rightarrow> (string \<times> guint32 \<times> blob_ptr) list" where
  "handle_entries s =
     concat (map (\<lambda>(n, peer). map (\<lambda>(h, p). (n, h, p)) (peer_blobs peer)) (peers s))"

definition refs_to :: "daemon \<Rightarrow> blob_ptr \<Rightarrow> nat" where
  "refs_to s k = length (filter (\<lambda>(n, h, p). p = k) (handle_entries s))"

definition blen :: "daemon \<Rightarrow> blob_ptr \<Rightarrow> gsize" where
  "blen s p = (case map_of (blobs s) p of Some b \<Rightarrow> len b | None \<Rightarrow> 0)"

text \<open>
  For the proofs: the multiset of all pointers held in peer tables, and the invariant the
  handlers keep. In \<open>binv M A\<close>, \<open>M\<close> collects every reference to a blob and \<open>A\<close>
  every reference whose length is counted in the apparent size; inside a handler these
  exceed the table entries by the references the handler itself holds.
\<close>

definition tbl_ptrs :: "(string \<times> Peer) list \<Rightarrow> blob_ptr multiset" where
  "tbl_ptrs ps = (\<Sum>x \<in># mset ps. mset (map snd (peer_blobs (snd x))))"

definition ptrs :: "daemon \<Rightarrow> blob_ptr multiset" where
  "ptrs s = tbl_ptrs (peers s)"

definition wf_peers :: "daemon \<Rightarrow> bool" where
  "wf_peers s \<longleftrightarrow>
     distinct (map fst (peers s)) \<and>
     (\<forall>n peer. map_of (peers s) n = Some peer \<longrightarrow>
        name peer = n \<and> distinct (map fst (peer_blobs peer)))"

definition binv :: "blob_ptr multiset \<Rightarrow> blob_ptr multiset \<Rightarrow> daemon \<Rightarrow> bool" where
  "binv M A s \<longleftrightarrow>
     distinct (map fst (blobs s)) \<and>
     (\<forall>k b. map_of (blobs s) k = Some b \<longrightarrow>
        sha256 b = k \<and> ref_count b = int (count M k) \<and> k \<in># M) \<and>
     (\<forall>p. p \<in># M \<longrightarrow> map_of (blobs s) p \<noteq> None) \<and>
     real_blob_size s = (\<Sum>x\<leftarrow>blobs s. len (snd x)) \<and>
     apparent_blob_size s = (\<Sum>p \<in># A. blen s p)"

definition dinv :: "blob_ptr multiset \<Rightarrow> daemon \<Rightarrow> bool" where
  "dinv H s \<longleftrightarrow> wf_peers s \<and> binv (ptrs s + H) (ptrs s) s"

definition vals :: "Peer \<Rightarrow> blob_ptr multiset" where
  "vals peer = mset (map snd (peer_blobs peer))"

text \<open>
  The events that do not index the descriptor list of the message with a negative number
  (the one input on which \<open>steal_one_fd_from_list\<close> reads out of bounds).
\<close>

fun handle_in_bounds :: "event \<Rightarrow> bool" where
  "handle_in_bounds (Method_call E sender interface_name method_name msg) =
     (method_name \<noteq> ''MakeUnique'' \<or>
      (case parameters msg of
         Tuple_h handle \<Rightarrow> unix_fd_list msg = None \<or> 0 \<le> handle
       | _ \<Rightarrow> True))"
| "handle_in_bounds (Name_owner_changed nm old_owner new_owner) = True"

section \<open>Example inputs\<close>

text \<open>
  A concrete environment for worked examples: every descriptor carries the two bytes
  \<open>Hi\<close> with all four seals, reads never fail, and the digest is the hex encoding of the
  content, which stands in for SHA-256 (the theorems below hold for every digest
  function).
\<close>

definition hex_digit :: "nat \<Rightarrow> char" where
  "hex_digit n = ''0123456789abcdef'' ! n"

definition example_digest :: "8 word list \<Rightarrow> string" where
  "example_digest bs =
     concat (map (\<lambda>b. [hex_digit (unat b div 16), hex_digit (unat b mod 16)]) bs)"

definition example_env :: env where
  "example_env =
     \<lparr>fcntl_get_seals = (\<lambda>fd0. 15), file_data = (\<lambda>fd0. [72, 105]),
      pread_fails = (\<lambda>fd0 offset. False), fstat_size = (\<lambda>fd0. Some 2),
      fd_list_append_fails = False, sha256_hex = example_digest\<rparr>"

definition example_msg :: message where
  "example_msg = \<lparr>parameters = Tuple_h 0, unix_fd_list = Some [5]\<rparr>"

definition submit :: "string \<Rightarrow> event" where
  "submit sender =
     Method_call example_env sender ''org.freedesktop.portal.Unique'' ''MakeUnique'' example_msg"

definition example_blob :: "int \<Rightarrow> Blob" where
  "example_blob n = \<lparr>sha256 = example_digest [72, 105], len = 2, fd = 5, ref_count = n\<rparr>"

definition example_peer :: "string \<Rightarrow> Peer" where
  "example_peer nm =
     \<lparr>name = nm, next_blob_id = 2, peer_blobs = [(1, example_digest [72, 105])]\<rparr>"

text \<open>The daemon after one submission by \<open>:1.1\<close>, and after a second one by \<open>:1.2\<close>.\<close>

definition example_state1 :: daemon where
  "example_state1 =
     \<lparr>real_blob_size = 2, apparent_blob_size = 2,
      peers = [('':1.1'', example_peer '':1.1'')],
      blobs = [(example_digest [72, 105], example_blob 1)]\<rparr>"

definition example_state2 :: daemon where
  "example_state2 =
     \<lparr>real_blob_size = 2, apparent_blob_size = 4,
      peers = [('':1.1'', example_peer '':1.1''), ('':1.2'', example_peer '':1.2'')],
      blobs = [(example_digest [72, 105], example_blob 2)]\<rparr>"

text \<open>
  A reply to a synchronous submission that hit an existing blob: the array holds index 0,
  the descriptor list the canonical descriptor 7, and the handle is 1.
\<close>

definition example_ipc :: ipc where
  "example_ipc =
     \<lparr>bus_available = True, create_sealed_memfd_result = 5, fd_list_append_result = 0,
      response = Some ([0], 1), response_fd_list = Some [7], mmap_result = 4096\<rparr>"

text \<open>
  A sparse sealed file of \<open>2^63 - 65537\<close> bytes, submitted three times by
  \<open>:1.1\<close>, and the state the daemon is in afterwards. Here \<open>pread\<close> behaves as on
  Linux: a read of 65536 bytes fails (\<open>EINVAL\<close>) when the offset plus the count
  exceeds the largest \<open>off_t\<close>, \<open>2^63 - 1\<close>. The size is the largest for which the
  loop of \<open>checksum_from_fd\<close> never meets that failure: its last read, at the end of
  the file, is at offset \<open>2^63 - 65537\<close>.
\<close>

definition huge_file :: "8 word list" where
  "huge_file = replicate (2 ^ 63 - 65537) 0"

definition huge_env :: env where
  "huge_env =
     \<lparr>fcntl_get_seals = (\<lambda>fd0. 15), file_data = (\<lambda>fd0. huge_file),
      pread_fails = (\<lambda>fd0 offset. offset + 65536 > 2 ^ 63 - 1),
      fstat_size = (\<lambda>fd0. Some 9223372036854710271),
      fd_list_append_fails = False, sha256_hex = example_digest\<rparr>"

definition huge_submit :: event where
  "huge_submit =
     Method_call huge_env '':1.1'' ''org.freedesktop.portal.Unique'' ''MakeUnique'' example_msg"

definition huge_state :: daemon where
  "huge_state =
     \<lparr>real_blob_size = 9223372036854710271, apparent_blob_size = 9223372036854579197,
      peers = [('':1.1'', \<lparr>name = '':1.1'', next_blob_id = 4,
                 peer_blobs = [(1, example_digest huge_file), (2, example_digest huge_file),
                               (3, example_digest huge_file)]\<rparr>)],
      blobs = [(example_digest huge_file,
                \<lparr>sha256 = example_digest huge_file, len = 9223372036854710271, fd = 5,
                   ref_count = 3\<rparr>)]\<rparr>"

text \<open>The daemon after \<open>:1.1\<close> has submitted once and forgotten its handle.\<close>

definition example_forgotten :: daemon where
  "example_forgotten =
     \<lparr>real_blob_size = 0, apparent_blob_size = 0,
      peers = [('':1.1'', \<lparr>name = '':1.1'', next_blob_id = 2, peer_blobs = []\<rparr>)],
      blobs = []\<rparr>"

text \<open>Replies to a submission that created a new blob: with handle 1, and with handle 0.\<close>

definition example_miss_ipc :: ipc where
  "example_miss_ipc =
     \<lparr>bus_available = True, create_sealed_memfd_result = 5, fd_list_append_result = 0,
      response = Some ([], 1), response_fd_list = None, mmap_result = 4096\<rparr>"

definition example_zero_ipc :: ipc where
  "example_zero_ipc =
     \<lparr>bus_available = True, create_sealed_memfd_result = 5, fd_list_append_result = 0,
      response = Some ([], 0), response_fd_list = None, mmap_result = 4096\<rparr>"

section \<open>Basic facts\<close>

lemma update_absent: "k \<notin> fst ` set al \<Longrightarrow> AList.update k v al = al @ [(k, v)]"
  by (induction al) auto

lemma and_then_Inr [simp]: "and_then (Inr x) f = f x"
  by (simp add: and_then_def)

lemma and_then_Inl [simp]: "and_then (Inl e) f = Inl e"
  by (simp add: and_then_def)

lemma and_then_eq_Inr: "and_then m f = Inr y \<longleftrightarrow> (\<exists>x. m = Inr x \<and> f x = Inr y)"
  by (cases m) auto

section \<open>Association lists as multisets\<close>

lemma delete_absent: "map_of xs k = None \<Longrightarrow> AList.delete k xs = xs"
  by (simp add: map_of_eq_None_iff)

lemma mset_delete:
  "distinct (map fst xs) \<Longrightarrow> map_of xs k = Some v \<Longrightarrow>
     add_mset (k, v) (mset (AList.delete k xs)) = mset xs"
proof (induction xs)
  case Nil
  then show ?case by simp
next
  case (Cons x xs)
  show ?case
  proof (cases "fst x = k")
    case True
    with Cons.prems have "x = (k, v)" by (cases x) simp
    moreover from Cons.prems True have "k \<notin> fst ` set xs" by auto
    ultimately show ?thesis by simp
  next
    case False
    with Cons show ?thesis by (cases x) (auto simp: AList.delete_eq)
  qed
qed

lemma mset_update:
  "distinct (map fst xs) \<Longrightarrow>
     mset (AList.update k v xs) = add_mset (k, v) (mset (AList.delete k xs))"
proof (induction xs)
  case Nil
  then show ?case by simp
next
  case (Cons x xs)
  then show ?case by (cases x) (auto simp: image_iff)
qed

lemma sum_list_delete:
  fixes f :: "'k \<times> 'v \<Rightarrow> 'a::ab_group_add"
  assumes "distinct (map fst xs)" and "map_of xs k = Some v"
  shows "(\<Sum>x\<leftarrow>AList.delete k xs. f x) = (\<Sum>x\<leftarrow>xs. f x) - f (k, v)"
proof -
  have "(\<Sum>x\<leftarrow>xs. f x) = sum_mset (image_mset f (mset xs))"
    by (simp add: sum_mset_sum_list [symmetric])
  also have "\<dots> = sum_mset (image_mset f (add_mset (k, v) (mset (AList.delete k xs))))"
    using mset_delete [OF assms] by simp
  also have "\<dots> = f (k, v) + (\<Sum>x\<leftarrow>AList.delete k xs. f x)"
    by (simp add: sum_mset_sum_list [symmetric])
  finally show ?thesis by simp
qed

lemma sum_list_update:
  fixes f :: "'k \<times> 'v \<Rightarrow> 'a::ab_group_add"
  assumes "distinct (map fst xs)"
  shows "(\<Sum>x\<leftarrow>AList.update k v xs. f x) = (\<Sum>x\<leftarrow>AList.delete k xs. f x) + f (k, v)"
proof -
  have "(\<Sum>x\<leftarrow>AList.update k v xs. f x) = sum_mset (image_mset f (mset (AList.update k v xs)))"
    by (simp add: sum_mset_sum_list [symmetric])
  also have "\<dots> = f (k, v) + (\<Sum>x\<leftarrow>AList.delete k xs. f x)"
    by (simp add: mset_update [OF assms] sum_mset_sum_list [symmetric])
  finally show ?thesis by simp
qed

lemma tbl_ptrs_delete:
  assumes "distinct (map fst ps)" and "map_of ps n = Some peer"
  shows "tbl_ptrs ps = tbl_ptrs (AList.delete n ps) + mset (map snd (peer_blobs peer))"
proof -
  have "tbl_ptrs ps = (\<Sum>x \<in># add_mset (n, peer) (mset (AList.delete n ps)). mset (map snd (peer_blobs (snd x))))"
    unfolding tbl_ptrs_def using mset_delete [OF assms] by simp
  then show ?thesis by (simp add: tbl_ptrs_def)
qed

lemma tbl_ptrs_update:
  assumes "distinct (map fst ps)"
  shows "tbl_ptrs (AList.update n peer ps) = tbl_ptrs (AList.delete n ps) + mset (map snd (peer_blobs peer))"
  unfolding tbl_ptrs_def by (simp add: mset_update [OF assms])

lemma vals_delete:
  assumes "distinct (map fst xs)" and "map_of xs k = Some v"
  shows "add_mset v (mset (map snd (AList.delete k xs))) = mset (map snd xs)"
proof -
  have "image_mset snd (add_mset (k, v) (mset (AList.delete k xs))) = image_mset snd (mset xs)"
    using mset_delete [OF assms] by simp
  then show ?thesis by simp
qed

lemma vals_update:
  assumes "distinct (map fst xs)"
  shows "mset (map snd (AList.update k v xs)) = add_mset v (mset (map snd (AList.delete k xs)))"
proof -
  have "image_mset snd (mset (AList.update k v xs)) = image_mset snd (add_mset (k, v) (mset (AList.delete k xs)))"
    using mset_update [OF assms] by simp
  then show ?thesis by simp
qed

section \<open>The invariant\<close>

subsection \<open>Operations on blobs\<close>

lemma binv_peers_upd [simp]: "binv M A (s\<lparr>peers := x\<rparr>) = binv M A s"
  by (simp add: binv_def blen_def)

lemma blen_upd [simp]:
  "blen (s\<lparr>apparent_blob_size := a\<rparr>) = blen s"
  "blen (s\<lparr>real_blob_size := a\<rparr>) = blen s"
  "blen (s\<lparr>peers := x\<rparr>) = blen s"
  by (simp_all add: blen_def fun_eq_iff)

lemma INT_MIN_neg: "INT_MIN < 1"
  by (simp add: INT_MIN_def)

lemma binvI:
  assumes "distinct (map fst (blobs s))"
    and "\<And>k b. map_of (blobs s) k = Some b \<Longrightarrow> sha256 b = k \<and> ref_count b = int (count M k) \<and> k \<in># M"
    and "\<And>p. p \<in># M \<Longrightarrow> map_of (blobs s) p \<noteq> None"
    and "real_blob_size s = (\<Sum>x\<leftarrow>blobs s. len (snd x))"
    and "apparent_blob_size s = (\<Sum>p \<in># A. blen s p)"
  shows "binv M A s"
  using assms unfolding binv_def by blast

lemma binv_distinct: "binv M A s \<Longrightarrow> distinct (map fst (blobs s))"
  unfolding binv_def by blast

lemma binv_blob:
  "binv M A s \<Longrightarrow> map_of (blobs s) k = Some b \<Longrightarrow>
     sha256 b = k \<and> ref_count b = int (count M k) \<and> k \<in># M"
  unfolding binv_def by blast

lemma binv_live: "binv M A s \<Longrightarrow> p \<in># M \<Longrightarrow> \<exists>b. map_of (blobs s) p = Some b"
  unfolding binv_def by blast

lemma binv_real: "binv M A s \<Longrightarrow> real_blob_size s = (\<Sum>x\<leftarrow>blobs s. len (snd x))"
  unfolding binv_def by blast

lemma binv_apparent: "binv M A s \<Longrightarrow> apparent_blob_size s = (\<Sum>p \<in># A. blen s p)"
  unfolding binv_def by blast

lemma sum_blen_cong:
  assumes "\<And>q. q \<in># A \<Longrightarrow> blen s' q = blen s q"
  shows "(\<Sum>p \<in># A. blen s' p) = (\<Sum>p \<in># A. blen s p)"
proof -
  have "image_mset (blen s') A = image_mset (blen s) A"
    by (rule image_mset_cong) (rule assms)
  then show ?thesis by simp
qed

lemma blob_ref_binv:
  assumes inv: "binv M A s" and ref: "blob_ref p s = Inr s'"
  shows "binv (add_mset p M) A s' \<and> peers s' = peers s
           \<and> apparent_blob_size s' = apparent_blob_size s \<and> real_blob_size s' = real_blob_size s
           \<and> (\<forall>q. blen s' q = blen s q)"
proof -
  from ref obtain b where b: "map_of (blobs s) p = Some b"
    and s': "s' = s\<lparr>blobs := AList.update p (b\<lparr>ref_count := ref_count b + 1\<rparr>) (blobs s)\<rparr>"
    by (auto simp: blob_ref_def split: option.splits if_splits)
  note dist = binv_distinct [OF inv]
  have mp: "map_of (blobs s') = (map_of (blobs s))(p \<mapsto> b\<lparr>ref_count := ref_count b + 1\<rparr>)"
    by (simp add: s' update_conv')
  have bl: "blen s' q = blen s q" for q
    using b by (simp add: blen_def mp)
  have real: "(\<Sum>x\<leftarrow>blobs s'. len (snd x)) = (\<Sum>x\<leftarrow>blobs s. len (snd x))"
    by (simp add: s' sum_list_update [OF dist] sum_list_delete [OF dist b])
  have "binv (add_mset p M) A s'"
  proof (rule binvI)
    show "distinct (map fst (blobs s'))"
      using dist by (simp add: s' distinct_update)
  next
    fix k b' assume k: "map_of (blobs s') k = Some b'"
    show "sha256 b' = k \<and> ref_count b' = int (count (add_mset p M) k) \<and> k \<in># add_mset p M"
    proof (cases "k = p")
      case True
      with k have "b' = b\<lparr>ref_count := ref_count b + 1\<rparr>" by (simp add: mp)
      with True binv_blob [OF inv b] show ?thesis by simp
    next
      case False
      with k have "map_of (blobs s) k = Some b'" by (simp add: mp)
      from binv_blob [OF inv this] False show ?thesis by simp
    qed
  next
    fix q assume "q \<in># add_mset p M"
    then show "map_of (blobs s') q \<noteq> None"
      using binv_live [OF inv, of q] by (auto simp: mp)
  next
    show "real_blob_size s' = (\<Sum>x\<leftarrow>blobs s'. len (snd x))"
      using binv_real [OF inv] real by (simp add: s')
  next
    have "(\<Sum>p\<in>#A. blen s' p) = (\<Sum>p\<in>#A. blen s p)"
      by (rule sum_blen_cong) (rule bl)
    then show "apparent_blob_size s' = (\<Sum>p\<in>#A. blen s' p)"
      using binv_apparent [OF inv] by (simp add: s')
  qed
  then show ?thesis using bl by (simp add: s')
qed

lemma blob_unref_binv:
  assumes inv: "binv (add_mset p M) A s" and sub: "A \<subseteq># M"
  shows "\<exists>s'. blob_unref p s = Inr s' \<and> binv M A s' \<and> peers s' = peers s
           \<and> apparent_blob_size s' = apparent_blob_size s
           \<and> (\<forall>q. q \<in># M \<longrightarrow> blen s' q = blen s q)"
proof -
  from binv_live [OF inv, of p] obtain b where b: "map_of (blobs s) p = Some b" by auto
  from binv_blob [OF inv b] have sha: "sha256 b = p" and rc: "ref_count b = int (count M p) + 1"
    by simp_all
  note dist = binv_distinct [OF inv]
  from rc have nomin: "\<not> ref_count b \<le> INT_MIN" using INT_MIN_neg by linarith
  show ?thesis
  proof (cases "p \<in># M")
    case False
    then have c0: "count M p = 0" by (simp add: count_eq_zero_iff)
    define s' where "s' = s\<lparr>real_blob_size := real_blob_size s - len b,
                            blobs := AList.delete p (blobs s)\<rparr>"
    have un: "blob_unref p s = Inr s'"
      using b sha rc c0 nomin by (simp add: blob_unref_def s'_def delete_idem)
    have mp: "map_of (blobs s') = (map_of (blobs s))(p := None)"
      by (simp add: s'_def delete_conv')
    have notin: "q \<in># M \<Longrightarrow> q \<noteq> p" for q
      using False by auto
    have bl: "q \<in># M \<Longrightarrow> blen s' q = blen s q" for q
      using notin by (simp add: blen_def mp)
    have "binv M A s'"
    proof (rule binvI)
      show "distinct (map fst (blobs s'))"
        using dist by (simp add: s'_def distinct_delete)
    next
      fix k b' assume k: "map_of (blobs s') k = Some b'"
      then have kp: "k \<noteq> p" and "map_of (blobs s) k = Some b'"
        by (auto simp: mp split: if_splits)
      from binv_blob [OF inv this(2)] kp
      show "sha256 b' = k \<and> ref_count b' = int (count M k) \<and> k \<in># M" by simp
    next
      fix q assume q: "q \<in># M"
      then show "map_of (blobs s') q \<noteq> None"
        using binv_live [OF inv, of q] notin [OF q] by (auto simp: mp)
    next
      show "real_blob_size s' = (\<Sum>x\<leftarrow>blobs s'. len (snd x))"
        using binv_real [OF inv] by (simp add: s'_def sum_list_delete [OF dist b])
    next
      have "(\<Sum>p\<in>#A. blen s' p) = (\<Sum>p\<in>#A. blen s p)"
        by (rule sum_blen_cong) (use bl sub in \<open>auto dest: mset_subset_eqD\<close>)
      then show "apparent_blob_size s' = (\<Sum>p\<in>#A. blen s' p)"
        using binv_apparent [OF inv] by (simp add: s'_def)
    qed
    with un bl show ?thesis by (auto simp: s'_def)
  next
    case True
    then have nz: "ref_count b - 1 \<noteq> 0" by (simp add: rc count_eq_zero_iff)
    define s' where "s' = s\<lparr>blobs := AList.update p (b\<lparr>ref_count := ref_count b - 1\<rparr>) (blobs s)\<rparr>"
    have un: "blob_unref p s = Inr s'"
      using b nz nomin by (simp add: blob_unref_def s'_def)
    have mp: "map_of (blobs s') = (map_of (blobs s))(p \<mapsto> b\<lparr>ref_count := ref_count b - 1\<rparr>)"
      by (simp add: s'_def update_conv')
    have bl: "blen s' q = blen s q" for q
      using b by (simp add: blen_def mp)
    have "binv M A s'"
    proof (rule binvI)
      show "distinct (map fst (blobs s'))"
        using dist by (simp add: s'_def distinct_update)
    next
      fix k b' assume k: "map_of (blobs s') k = Some b'"
      show "sha256 b' = k \<and> ref_count b' = int (count M k) \<and> k \<in># M"
      proof (cases "k = p")
        case True
        with k have "b' = b\<lparr>ref_count := ref_count b - 1\<rparr>" by (simp add: mp)
        with True sha rc \<open>p \<in># M\<close> show ?thesis by simp
      next
        case False
        with k have "map_of (blobs s) k = Some b'" by (simp add: mp)
        from binv_blob [OF inv this] False show ?thesis by simp
      qed
    next
      fix q assume "q \<in># M"
      then show "map_of (blobs s') q \<noteq> None"
        using binv_live [OF inv, of q] by (auto simp: mp)
    next
      show "real_blob_size s' = (\<Sum>x\<leftarrow>blobs s'. len (snd x))"
        using binv_real [OF inv]
        by (simp add: s'_def sum_list_update [OF dist] sum_list_delete [OF dist b])
    next
      have "(\<Sum>p\<in>#A. blen s' p) = (\<Sum>p\<in>#A. blen s p)"
        by (rule sum_blen_cong) (rule bl)
      then show "apparent_blob_size s' = (\<Sum>p\<in>#A. blen s' p)"
        using binv_apparent [OF inv] by (simp add: s'_def)
    qed
    with un bl show ?thesis by (auto simp: s'_def)
  qed
qed

lemma binv_apparent_upd:
  assumes "binv M A s" and "a = (\<Sum>p \<in># A'. blen s p)"
  shows "binv M A' (s\<lparr>apparent_blob_size := a\<rparr>)"
proof -
  have bl: "blen (s\<lparr>apparent_blob_size := a\<rparr>) = blen s"
    by (simp add: blen_def fun_eq_iff)
  show ?thesis
  proof (rule binvI)
    show "distinct (map fst (blobs (s\<lparr>apparent_blob_size := a\<rparr>)))"
      using binv_distinct [OF assms(1)] by simp
  next
    fix k b assume "map_of (blobs (s\<lparr>apparent_blob_size := a\<rparr>)) k = Some b"
    then have "map_of (blobs s) k = Some b" by simp
    then show "sha256 b = k \<and> ref_count b = int (count M k) \<and> k \<in># M"
      by (rule binv_blob [OF assms(1)])
  next
    fix p assume "p \<in># M"
    from binv_live [OF assms(1) this]
    show "map_of (blobs (s\<lparr>apparent_blob_size := a\<rparr>)) p \<noteq> None" by auto
  next
    show "real_blob_size (s\<lparr>apparent_blob_size := a\<rparr>)
            = (\<Sum>x\<leftarrow>blobs (s\<lparr>apparent_blob_size := a\<rparr>). len (snd x))"
      using binv_real [OF assms(1)] by simp
  next
    show "apparent_blob_size (s\<lparr>apparent_blob_size := a\<rparr>)
            = (\<Sum>p \<in># A'. blen (s\<lparr>apparent_blob_size := a\<rparr>) p)"
      by (simp add: assms(2))
  qed
qed

lemma cb_binv:
  assumes inv: "binv (add_mset p M) (add_mset p A) s" and sub: "A \<subseteq># M"
  shows "\<exists>s'. removed_blob_from_peer_cb p s = Inr s' \<and> binv M A s' \<and> peers s' = peers s
           \<and> apparent_blob_size s' = apparent_blob_size s - blen s p
           \<and> (\<forall>q. q \<in># M \<longrightarrow> blen s' q = blen s q)"
proof -
  from binv_live [OF inv, of p] obtain b where b: "map_of (blobs s) p = Some b" by auto
  then have lb: "len b = blen s p" by (simp add: blen_def)
  define s1 where "s1 = s\<lparr>apparent_blob_size := apparent_blob_size s - len b\<rparr>"
  have bl1: "blen s1 = blen s" by (simp add: s1_def blen_def fun_eq_iff)
  have "apparent_blob_size s - len b = (\<Sum>p \<in># A. blen s p)"
    using binv_apparent [OF inv] lb by simp
  from binv_apparent_upd [OF inv this] have "binv (add_mset p M) A s1"
    by (simp add: s1_def)
  from blob_unref_binv [OF this sub] obtain s' where
    "blob_unref p s1 = Inr s'" "binv M A s'" "peers s' = peers s1"
    "apparent_blob_size s' = apparent_blob_size s1" "\<forall>q. q \<in># M \<longrightarrow> blen s' q = blen s1 q"
    by blast
  moreover have "removed_blob_from_peer_cb p s = blob_unref p s1"
    using b by (simp add: removed_blob_from_peer_cb_def s1_def)
  moreover have "peers s1 = peers s" "apparent_blob_size s1 = apparent_blob_size s - blen s p"
    by (simp_all add: s1_def lb)
  ultimately show ?thesis by (simp add: bl1)
qed

lemma blob_new_binv:
  assumes inv: "binv M A s" and miss: "map_of (blobs s) sha = None"
    and sub: "A \<subseteq># M"
    and new: "blob_new E fd0 sha s = (p, s')"
  shows "p = sha \<and> binv (add_mset sha M) A s' \<and> peers s' = peers s
           \<and> apparent_blob_size s' = apparent_blob_size s
           \<and> (\<forall>q. q \<noteq> sha \<longrightarrow> blen s' q = blen s q)"
proof -
  define b where "b = \<lparr>sha256 = sha, len = (case fstat_size E fd0 of Some sz \<Rightarrow> sz | None \<Rightarrow> 0),
                       fd = fd0, ref_count = 1\<rparr>"
  from new have p: "p = sha"
    and s': "s' = s\<lparr>real_blob_size := real_blob_size s + len b, blobs := AList.update sha b (blobs s)\<rparr>"
    by (auto simp: blob_new_def Let_def b_def)
  note dist = binv_distinct [OF inv]
  have mp: "map_of (blobs s') = (map_of (blobs s))(sha \<mapsto> b)"
    by (simp add: s' update_conv')
  have notin: "sha \<notin># M"
    using binv_live [OF inv, of sha] miss by auto
  have bl: "q \<noteq> sha \<Longrightarrow> blen s' q = blen s q" for q
    by (simp add: blen_def mp)
  have "binv (add_mset sha M) A s'"
  proof (rule binvI)
    show "distinct (map fst (blobs s'))"
      using dist by (simp add: s' distinct_update)
  next
    fix k b' assume k: "map_of (blobs s') k = Some b'"
    show "sha256 b' = k \<and> ref_count b' = int (count (add_mset sha M) k) \<and> k \<in># add_mset sha M"
    proof (cases "k = sha")
      case True
      with k have "b' = b" by (simp add: mp)
      with True notin show ?thesis by (simp add: b_def count_eq_zero_iff)
    next
      case False
      with k have "map_of (blobs s) k = Some b'" by (simp add: mp)
      from binv_blob [OF inv this] False show ?thesis by simp
    qed
  next
    fix q assume "q \<in># add_mset sha M"
    then show "map_of (blobs s') q \<noteq> None"
      using binv_live [OF inv, of q] by (auto simp: mp)
  next
    show "real_blob_size s' = (\<Sum>x\<leftarrow>blobs s'. len (snd x))"
      using binv_real [OF inv]
      by (simp add: s' sum_list_update [OF dist] delete_absent [OF miss])
  next
    have "(\<Sum>p\<in>#A. blen s' p) = (\<Sum>p\<in>#A. blen s p)"
    proof (rule sum_blen_cong)
      fix q assume "q \<in># A"
      with sub have "q \<in># M" by (auto dest: mset_subset_eqD)
      with notin have "q \<noteq> sha" by auto
      then show "blen s' q = blen s q" by (rule bl)
    qed
    then show "apparent_blob_size s' = (\<Sum>p\<in>#A. blen s' p)"
      using binv_apparent [OF inv] by (simp add: s')
  qed
  with p bl show ?thesis by (simp add: s')
qed

subsection \<open>Operations on peers\<close>

lemma wf_peersI:
  assumes "distinct (map fst (peers s))"
    and "\<And>n peer. map_of (peers s) n = Some peer \<Longrightarrow> name peer = n \<and> distinct (map fst (peer_blobs peer))"
  shows "wf_peers s"
  using assms unfolding wf_peers_def by blast

lemma wf_peers_distinct: "wf_peers s \<Longrightarrow> distinct (map fst (peers s))"
  unfolding wf_peers_def by blast

lemma wf_peers_peer:
  "wf_peers s \<Longrightarrow> map_of (peers s) n = Some peer \<Longrightarrow>
     name peer = n \<and> distinct (map fst (peer_blobs peer))"
  unfolding wf_peers_def by blast

lemma wf_peers_upd [simp]:
  "wf_peers (s\<lparr>apparent_blob_size := a\<rparr>) = wf_peers s"
  "wf_peers (s\<lparr>real_blob_size := a\<rparr>) = wf_peers s"
  "wf_peers (s\<lparr>blobs := x\<rparr>) = wf_peers s"
  by (simp_all add: wf_peers_def)

lemma ptrs_upd [simp]:
  "ptrs (s\<lparr>apparent_blob_size := a\<rparr>) = ptrs s"
  "ptrs (s\<lparr>real_blob_size := a\<rparr>) = ptrs s"
  "ptrs (s\<lparr>blobs := x\<rparr>) = ptrs s"
  by (simp_all add: ptrs_def)

lemma ptrs_split:
  assumes "wf_peers s" and "map_of (peers s) n = Some peer"
  shows "ptrs s = tbl_ptrs (AList.delete n (peers s)) + vals peer"
  unfolding ptrs_def vals_def
  by (rule tbl_ptrs_delete [OF wf_peers_distinct [OF assms(1)] assms(2)])

lemma peer_update:
  assumes wf: "wf_peers s" and nm: "name peer' = n"
    and dist: "distinct (map fst (peer_blobs peer'))"
  shows "wf_peers (s\<lparr>peers := AList.update n peer' (peers s)\<rparr>)"
    and "ptrs (s\<lparr>peers := AList.update n peer' (peers s)\<rparr>)
           = tbl_ptrs (AList.delete n (peers s)) + vals peer'"
proof -
  show "wf_peers (s\<lparr>peers := AList.update n peer' (peers s)\<rparr>)"
  proof (rule wf_peersI)
    show "distinct (map fst (peers (s\<lparr>peers := AList.update n peer' (peers s)\<rparr>)))"
      using wf_peers_distinct [OF wf] by (simp add: distinct_update)
  next
    fix m peer assume "map_of (peers (s\<lparr>peers := AList.update n peer' (peers s)\<rparr>)) m = Some peer"
    then have "(m = n \<and> peer = peer') \<or> map_of (peers s) m = Some peer"
      by (auto simp: update_conv' split: if_splits)
    then show "name peer = m \<and> distinct (map fst (peer_blobs peer))"
      using nm dist wf_peers_peer [OF wf] by auto
  qed
  show "ptrs (s\<lparr>peers := AList.update n peer' (peers s)\<rparr>)
           = tbl_ptrs (AList.delete n (peers s)) + vals peer'"
    unfolding ptrs_def vals_def
    using tbl_ptrs_update [OF wf_peers_distinct [OF wf]] by simp
qed

lemma peer_delete:
  assumes wf: "wf_peers s"
  shows "wf_peers (s\<lparr>peers := AList.delete n (peers s)\<rparr>)"
    and "ptrs (s\<lparr>peers := AList.delete n (peers s)\<rparr>) = tbl_ptrs (AList.delete n (peers s))"
proof -
  show "wf_peers (s\<lparr>peers := AList.delete n (peers s)\<rparr>)"
  proof (rule wf_peersI)
    show "distinct (map fst (peers (s\<lparr>peers := AList.delete n (peers s)\<rparr>)))"
      using wf_peers_distinct [OF wf] by (simp add: distinct_delete)
  next
    fix m peer assume "map_of (peers (s\<lparr>peers := AList.delete n (peers s)\<rparr>)) m = Some peer"
    then have "map_of (peers s) m = Some peer"
      by (auto simp: delete_conv' split: if_splits)
    then show "name peer = m \<and> distinct (map fst (peer_blobs peer))"
      by (rule wf_peers_peer [OF wf])
  qed
  show "ptrs (s\<lparr>peers := AList.delete n (peers s)\<rparr>) = tbl_ptrs (AList.delete n (peers s))"
    by (simp add: ptrs_def)
qed

lemma lookup_peer_props:
  assumes wf: "wf_peers s" and lk: "lookup_peer n s = (peer, s1)"
  shows "wf_peers s1" and "map_of (peers s1) n = Some peer" and "ptrs s1 = ptrs s"
    and "blobs s1 = blobs s" and "real_blob_size s1 = real_blob_size s"
    and "apparent_blob_size s1 = apparent_blob_size s"
    and "tbl_ptrs (AList.delete n (peers s1)) = tbl_ptrs (AList.delete n (peers s))"
proof -
  have "wf_peers s1 \<and> map_of (peers s1) n = Some peer \<and> ptrs s1 = ptrs s
          \<and> blobs s1 = blobs s \<and> real_blob_size s1 = real_blob_size s
          \<and> apparent_blob_size s1 = apparent_blob_size s
          \<and> tbl_ptrs (AList.delete n (peers s1)) = tbl_ptrs (AList.delete n (peers s))"
  proof (cases "map_of (peers s) n")
    case (Some p0)
    with lk have "peer = p0" "s1 = s" by (simp_all add: lookup_peer_def)
    with Some wf show ?thesis by simp
  next
    case None
    define fresh where "fresh = \<lparr>name = n, next_blob_id = 1, peer_blobs = []\<rparr>"
    from None lk have peer: "peer = fresh" and s1: "s1 = s\<lparr>peers := AList.update n fresh (peers s)\<rparr>"
      by (auto simp: lookup_peer_def Let_def fresh_def)
    have "name fresh = n" "distinct (map fst (peer_blobs fresh))" by (simp_all add: fresh_def)
    from peer_update [OF wf this] have "wf_peers s1"
      and p: "ptrs s1 = tbl_ptrs (AList.delete n (peers s)) + vals fresh"
      by (simp_all add: s1)
    moreover have "vals fresh = {#}" by (simp add: vals_def fresh_def)
    moreover have "AList.delete n (peers s) = peers s" by (rule delete_absent [OF None])
    ultimately show ?thesis
      by (simp add: s1 peer update_conv' ptrs_def delete_update_same)
  qed
  then show "wf_peers s1" and "map_of (peers s1) n = Some peer" and "ptrs s1 = ptrs s"
    and "blobs s1 = blobs s" and "real_blob_size s1 = real_blob_size s"
    and "apparent_blob_size s1 = apparent_blob_size s"
    and "tbl_ptrs (AList.delete n (peers s1)) = tbl_ptrs (AList.delete n (peers s))"
    by simp_all
qed

lemma binv_cong:
  assumes "blobs s' = blobs s" and "real_blob_size s' = real_blob_size s"
    and "apparent_blob_size s' = apparent_blob_size s"
  shows "binv M A s' = binv M A s"
  using assms by (simp add: binv_def blen_def)

lemma destroy_values_binv:
  assumes "binv (M + mset qs) (A + mset qs) s" and "A \<subseteq># M"
  shows "\<exists>s'. destroy_values qs s = Inr s' \<and> binv M A s' \<and> peers s' = peers s"
  using assms
proof (induction qs arbitrary: s)
  case Nil
  then show ?case by simp
next
  case (Cons q qs)
  from Cons.prems(1) have "binv (add_mset q (M + mset qs)) (add_mset q (A + mset qs)) s"
    by simp
  moreover from Cons.prems(2) have "A + mset qs \<subseteq># M + mset qs" by simp
  ultimately obtain s1 where s1: "removed_blob_from_peer_cb q s = Inr s1"
    "binv (M + mset qs) (A + mset qs) s1" "peers s1 = peers s"
    using cb_binv by blast
  from Cons.IH [OF s1(2) Cons.prems(2)] s1(1,3) show ?case by auto
qed

lemma add_blob_to_peer_total:
  assumes inv: "dinv (add_mset p H) s" and b0: "map_of (blobs s) p = Some b"
    and rc: "ref_count b < INT_MAX"
  shows "\<exists>blob_id s'. add_blob_to_peer sender p s = Inr (blob_id, s') \<and> dinv (add_mset p H) s'"
proof -
  from inv have wf: "wf_peers s" and bi: "binv (ptrs s + add_mset p H) (ptrs s) s"
    by (simp_all add: dinv_def)
  obtain peer s1 where lk: "lookup_peer sender s = (peer, s1)" by (cases "lookup_peer sender s")
  note lp = lookup_peer_props [OF wf lk]
  have bi1: "binv (ptrs s + add_mset p H) (ptrs s) s1"
    using bi binv_cong [OF lp(4,5,6)] by simp
  from b0 lp(4) have b: "map_of (blobs s1) p = Some b" by simp
  define s1a where "s1a = s1\<lparr>apparent_blob_size := apparent_blob_size s1 + len b\<rparr>"
  define peer2 where "peer2 = peer\<lparr>next_blob_id := next_blob_id peer + 1,
      peer_blobs := AList.update (next_blob_id peer) p (peer_blobs peer)\<rparr>"
  define s2 where "s2 = s1a\<lparr>blobs := AList.update p (b\<lparr>ref_count := ref_count b + 1\<rparr>) (blobs s1a)\<rparr>"
  have s2: "blob_ref p s1a = Inr s2"
    using b rc by (simp add: blob_ref_def s1a_def s2_def)
  define s3 where "s3 = s2\<lparr>peers := AList.update sender peer2 (peers s2)\<rparr>"
  have fin: "add_blob_to_peer sender p s =
            (case map_of (peer_blobs peer) (next_blob_id peer) of
               None \<Rightarrow> Inr (next_blob_id peer, s3)
             | Some q \<Rightarrow> and_then (removed_blob_from_peer_cb q s3) (\<lambda>s4. Inr (next_blob_id peer, s4)))"
    using lk b s2 unfolding s3_def peer2_def
    by (simp add: add_blob_to_peer_def Let_def s1a_def [symmetric])
  have "apparent_blob_size s1 + len b = (\<Sum>q \<in># add_mset p (ptrs s). blen s1 q)"
    using binv_apparent [OF bi1] b by (simp add: blen_def)
  from binv_apparent_upd [OF bi1 this]
  have "binv (ptrs s + add_mset p H) (add_mset p (ptrs s)) s1a"
    by (simp add: s1a_def)
  from blob_ref_binv [OF this s2]
  have bi2: "binv (add_mset p (ptrs s + add_mset p H)) (add_mset p (ptrs s)) s2"
    and ps2: "peers s2 = peers s1"
    by (simp_all add: s1a_def)
  have wf2: "wf_peers s2"
    using lp(1) ps2 by (simp add: wf_peers_def)
  from wf_peers_peer [OF lp(1,2)] have pn: "name peer = sender"
    and pd: "distinct (map fst (peer_blobs peer))" by simp_all
  have "name peer2 = sender" "distinct (map fst (peer_blobs peer2))"
    using pn pd by (simp_all add: peer2_def distinct_update)
  from peer_update [OF wf2 this]
  have wf3: "wf_peers s3"
    and p3: "ptrs s3 = tbl_ptrs (AList.delete sender (peers s1)) + vals peer2"
    by (simp_all add: s3_def ps2)
  have p1: "ptrs s = tbl_ptrs (AList.delete sender (peers s1)) + vals peer"
    using ptrs_split [OF lp(1,2)] lp(3) by simp
  have v2: "vals peer2 = add_mset p (mset (map snd (AList.delete (next_blob_id peer) (peer_blobs peer))))"
    using vals_update [OF pd, of "next_blob_id peer" p] by (simp add: vals_def peer2_def)
  have bi3: "binv M A s3 = binv M A s2" for M A
    by (simp add: s3_def)
  show ?thesis
  proof (cases "map_of (peer_blobs peer) (next_blob_id peer)")
    case None
    with fin have res: "add_blob_to_peer sender p s = Inr (next_blob_id peer, s3)" by simp
    have "vals peer2 = add_mset p (vals peer)"
      unfolding v2 delete_absent [OF None] by (simp add: vals_def)
    with p1 p3 have "ptrs s3 = add_mset p (ptrs s)" by simp
    with bi2 wf3 have "dinv (add_mset p H) s3" by (simp add: dinv_def bi3)
    with res show ?thesis by blast
  next
    case (Some q)
    from vals_delete [OF pd Some] have "vals peer = add_mset q (mset (map snd (AList.delete (next_blob_id peer) (peer_blobs peer))))"
      by (simp add: vals_def)
    with v2 p1 p3 have eq: "add_mset q (ptrs s3) = add_mset p (ptrs s)" by simp
    have "add_mset q (ptrs s3 + add_mset p H) = add_mset q (ptrs s3) + add_mset p H"
      by simp
    also have "\<dots> = add_mset p (ptrs s + add_mset p H)"
      unfolding eq by simp
    finally have "binv (add_mset q (ptrs s3 + add_mset p H)) (add_mset q (ptrs s3)) s3"
      using bi2 unfolding eq by (simp only: bi3)
    moreover have "ptrs s3 \<subseteq># ptrs s3 + add_mset p H" by simp
    ultimately obtain s4 where s4: "removed_blob_from_peer_cb q s3 = Inr s4"
      "binv (ptrs s3 + add_mset p H) (ptrs s3) s4" "peers s4 = peers s3"
      using cb_binv by blast
    from fin Some s4(1) have res: "add_blob_to_peer sender p s = Inr (next_blob_id peer, s4)"
      by simp
    have "wf_peers s4" "ptrs s4 = ptrs s3"
      using wf3 s4(3) by (simp_all add: wf_peers_def ptrs_def)
    with s4(2) have "dinv (add_mset p H) s4" by (simp add: dinv_def)
    with res show ?thesis by blast
  qed
qed

lemma add_blob_to_peer_dinv:
  assumes inv: "dinv (add_mset p H) s" and add: "add_blob_to_peer sender p s = Inr (blob_id, s')"
  shows "dinv (add_mset p H) s'"
proof -
  obtain peer s1 where lk: "lookup_peer sender s = (peer, s1)" by (cases "lookup_peer sender s")
  then have bl: "blobs s1 = blobs s"
    by (auto simp: lookup_peer_def Let_def split: option.splits)
  from add lk obtain b where b: "map_of (blobs s1) p = Some b"
    by (auto simp: add_blob_to_peer_def Let_def split: option.splits)
  from add lk b have "ref_count b < INT_MAX"
    by (auto simp: add_blob_to_peer_def Let_def blob_ref_def split: if_splits)
  from add_blob_to_peer_total [OF inv b [unfolded bl] this, of sender] add
  show ?thesis by auto
qed

subsection \<open>Handlers and runs\<close>

lemma dinv_same_peers:
  assumes "wf_peers s" and "binv (ptrs s + H) (ptrs s) s'" and "peers s' = peers s"
  shows "dinv H s'"
  using assms by (simp add: dinv_def wf_peers_def ptrs_def)

lemma remove_blob_from_peer_dinv:
  assumes inv: "dinv H s"
  shows "\<exists>s'. remove_blob_from_peer sender blob_id s = Inr s' \<and> dinv H s'"
proof -
  from inv have wf: "wf_peers s" and bi: "binv (ptrs s + H) (ptrs s) s"
    by (simp_all add: dinv_def)
  obtain peer s1 where lk: "lookup_peer sender s = (peer, s1)" by (cases "lookup_peer sender s")
  note lp = lookup_peer_props [OF wf lk]
  have bi1: "binv (ptrs s1 + H) (ptrs s1) s1"
    using bi binv_cong [OF lp(4,5,6)] lp(3) by simp
  show ?thesis
  proof (cases "map_of (peer_blobs peer) blob_id")
    case None
    with lk have "remove_blob_from_peer sender blob_id s = Inr s1"
      by (simp add: remove_blob_from_peer_def)
    with bi1 lp(1) show ?thesis by (simp add: dinv_def)
  next
    case (Some q)
    define peer' where "peer' = peer\<lparr>peer_blobs := AList.delete blob_id (peer_blobs peer)\<rparr>"
    define s2 where "s2 = s1\<lparr>peers := AList.update sender peer' (peers s1)\<rparr>"
    from Some lk have rm: "remove_blob_from_peer sender blob_id s = removed_blob_from_peer_cb q s2"
      by (simp add: remove_blob_from_peer_def s2_def peer'_def)
    from wf_peers_peer [OF lp(1,2)] have pn: "name peer = sender"
      and pd: "distinct (map fst (peer_blobs peer))" by simp_all
    have "name peer' = sender" "distinct (map fst (peer_blobs peer'))"
      using pn pd by (simp_all add: peer'_def distinct_delete)
    from peer_update [OF lp(1) this]
    have wf2: "wf_peers s2"
      and p2: "ptrs s2 = tbl_ptrs (AList.delete sender (peers s1)) + vals peer'"
      by (simp_all add: s2_def)
    have p1: "ptrs s1 = tbl_ptrs (AList.delete sender (peers s1)) + vals peer"
      by (rule ptrs_split [OF lp(1,2)])
    have "vals peer = add_mset q (vals peer')"
      using vals_delete [OF pd Some] by (simp add: vals_def peer'_def)
    with p1 p2 have eq: "ptrs s1 = add_mset q (ptrs s2)" by simp
    have "binv (add_mset q (ptrs s2 + H)) (add_mset q (ptrs s2)) s2"
      using bi1 unfolding eq by (simp add: s2_def)
    moreover have "ptrs s2 \<subseteq># ptrs s2 + H" by simp
    ultimately obtain s3 where s3: "removed_blob_from_peer_cb q s2 = Inr s3"
      "binv (ptrs s2 + H) (ptrs s2) s3" "peers s3 = peers s2"
      using cb_binv by blast
    from dinv_same_peers [OF wf2 s3(2,3)] rm s3(1) show ?thesis by simp
  qed
qed

lemma name_owner_changed_dinv:
  assumes inv: "dinv H s"
  shows "\<exists>s'. name_owner_changed nm from to s = Inr s' \<and> dinv H s'"
proof (cases "(case nm of [] \<Rightarrow> False | c # _ \<Rightarrow> c = CHR '':'') \<and> nm = from \<and> to = []")
  case False
  then have "name_owner_changed nm from to s = Inr s"
    by (auto simp: name_owner_changed_def)
  with inv show ?thesis by simp
next
  case True
  from inv have wf: "wf_peers s" and bi: "binv (ptrs s + H) (ptrs s) s"
    by (simp_all add: dinv_def)
  show ?thesis
  proof (cases "map_of (peers s) nm")
    case None
    with True have "name_owner_changed nm from to s = Inr s"
      by (simp add: name_owner_changed_def)
    with inv show ?thesis by simp
  next
    case (Some peer)
    define s1 where "s1 = s\<lparr>peers := AList.delete nm (peers s)\<rparr>"
    from True Some have noc: "name_owner_changed nm from to s
        = destroy_values (map snd (peer_blobs peer)) s1"
      unfolding name_owner_changed_def peer_free_def s1_def by auto
    from peer_delete [OF wf, of nm] have wf1: "wf_peers s1"
      and p1: "ptrs s1 = tbl_ptrs (AList.delete nm (peers s))"
      by (simp_all add: s1_def)
    from ptrs_split [OF wf Some] p1 have eq: "ptrs s = ptrs s1 + mset (map snd (peer_blobs peer))"
      by (simp add: vals_def)
    have eqM: "ptrs s + H = (ptrs s1 + H) + mset (map snd (peer_blobs peer))"
      unfolding eq by (simp add: ac_simps)
    have "binv ((ptrs s1 + H) + mset (map snd (peer_blobs peer)))
               (ptrs s1 + mset (map snd (peer_blobs peer))) s"
      using bi unfolding eqM [symmetric] eq [symmetric] .
    then have "binv ((ptrs s1 + H) + mset (map snd (peer_blobs peer)))
                    (ptrs s1 + mset (map snd (peer_blobs peer))) s1"
      by (simp only: s1_def binv_peers_upd)
    moreover have "ptrs s1 \<subseteq># ptrs s1 + H" by simp
    ultimately obtain s2 where s2: "destroy_values (map snd (peer_blobs peer)) s1 = Inr s2"
      "binv (ptrs s1 + H) (ptrs s1) s2" "peers s2 = peers s1"
      using destroy_values_binv by blast
    from dinv_same_peers [OF wf1 s2(2,3)] noc s2(1) show ?thesis by simp
  qed
qed

lemma blob_unref_dinv:
  assumes inv: "dinv (add_mset p H) s"
  shows "\<exists>s'. blob_unref p s = Inr s' \<and> dinv H s'"
proof -
  from inv have wf: "wf_peers s" and bi: "binv (add_mset p (ptrs s + H)) (ptrs s) s"
    by (simp_all add: dinv_def)
  have "ptrs s \<subseteq># ptrs s + H" by simp
  from blob_unref_binv [OF bi this] obtain s' where
    "blob_unref p s = Inr s'" "binv (ptrs s + H) (ptrs s) s'" "peers s' = peers s"
    by blast
  with dinv_same_peers [OF wf this(2,3)] show ?thesis by simp
qed

lemma lookup_blob_dinv:
  assumes inv: "dinv H s" and lk: "lookup_blob sha s = Inr (blob, s1)"
  shows "(blob = None \<and> s1 = s \<and> map_of (blobs s) sha = None)
       \<or> (blob = Some sha \<and> dinv (add_mset sha H) s1)"
proof (cases "map_of (blobs s) sha")
  case None
  with lk show ?thesis by (simp add: lookup_blob_def)
next
  case (Some b)
  with lk have ref: "blob_ref sha s = Inr s1" and bl: "blob = Some sha"
    by (auto simp: lookup_blob_def and_then_eq_Inr)
  from inv have wf: "wf_peers s" and bi: "binv (ptrs s + H) (ptrs s) s"
    by (simp_all add: dinv_def)
  from blob_ref_binv [OF bi ref] have "binv (add_mset sha (ptrs s + H)) (ptrs s) s1"
    "peers s1 = peers s" by simp_all
  with dinv_same_peers [OF wf, of "add_mset sha H" s1] bl show ?thesis by simp
qed

lemma blob_new_dinv:
  assumes inv: "dinv H s" and miss: "map_of (blobs s) sha = None"
    and new: "blob_new E fd0 sha s = (p, s')"
  shows "p = sha \<and> dinv (add_mset sha H) s'"
proof -
  from inv have wf: "wf_peers s" and bi: "binv (ptrs s + H) (ptrs s) s"
    by (simp_all add: dinv_def)
  have "ptrs s \<subseteq># ptrs s + H" by simp
  from blob_new_binv [OF bi miss this new]
  have "p = sha" "binv (add_mset sha (ptrs s + H)) (ptrs s) s'" "peers s' = peers s"
    by simp_all
  with dinv_same_peers [OF wf, of "add_mset sha H" s'] show ?thesis by simp
qed

lemma add_then_unref_dinv:
  assumes inv: "dinv (add_mset p H) s"
    and run: "and_then (add_blob_to_peer sender p s) (\<lambda>(blob_id, s2).
                and_then (blob_unref p s2) (\<lambda>s3. Inr (f blob_id, s3))) = Inr (r, s')"
  shows "dinv H s'"
proof -
  from run obtain blob_id s2 s3 where a: "add_blob_to_peer sender p s = Inr (blob_id, s2)"
    and u: "blob_unref p s2 = Inr s3" and s': "s' = s3"
    by (auto simp: and_then_eq_Inr)
  from add_blob_to_peer_dinv [OF inv a] have "dinv (add_mset p H) s2" .
  from blob_unref_dinv [OF this] u s' show ?thesis by auto
qed

lemma make_unique_dinv:
  assumes inv: "dinv H s" and mu: "make_unique E sender msg s = Inr (r, s')"
  shows "dinv H s'"
proof (cases "parameters msg")
  case (Tuple_h handle)
  from mu Tuple_h obtain fd0 where st: "steal_one_fd_from_list (unix_fd_list msg) handle = Inr fd0"
    by (auto simp: make_unique_def and_then_eq_Inr)
  show ?thesis
  proof (cases "fd0 = - 1 \<or> fcntl_get_seals E fd0 = - 1
                 \<or> fcntl_get_seals E fd0 AND ALL_SEALS \<noteq> ALL_SEALS
                 \<or> checksum_from_fd E fd0 [] 0 = None")
    case True
    with mu Tuple_h st have "s' = s"
      by (auto simp: make_unique_def Let_def split: if_splits)
    with inv show ?thesis by simp
  next
    case False
    then obtain checksum where ck: "checksum_from_fd E fd0 [] 0 = Some checksum" by auto
    define sha where "sha = sha256_hex E checksum"
    have mu_eq: "make_unique E sender msg s = and_then (lookup_blob sha s) (\<lambda>(blob, s1).
        case blob of
          None \<Rightarrow>
            let (p, s2) = blob_new E fd0 sha s1
            in and_then (add_blob_to_peer sender p s2) (\<lambda>(blob_id, s3).
               and_then (blob_unref p s3) (\<lambda>s4. Inr (Return_ahu [] blob_id [], s4)))
        | Some p \<Rightarrow>
            (case map_of (blobs s1) p of
               None \<Rightarrow> Inl Use_after_free
             | Some b \<Rightarrow>
                 if fd_list_append_fails E
                 then and_then (blob_unref p s1) (\<lambda>s2.
                        Inr (Return_error G_DBUS_ERROR_FAILED ''Failed to dup fd'', s2))
                 else
                   and_then (add_blob_to_peer sender p s1) (\<lambda>(blob_id, s2).
                   and_then (blob_unref p s2) (\<lambda>s3.
                     Inr (Return_ahu [0] blob_id [fd b], s3)))))"
      unfolding sha_def using Tuple_h st False ck by (simp add: make_unique_def Let_def)
    from mu have "and_then (lookup_blob sha s) (\<lambda>(blob, s1).
        case blob of
          None \<Rightarrow>
            let (p, s2) = blob_new E fd0 sha s1
            in and_then (add_blob_to_peer sender p s2) (\<lambda>(blob_id, s3).
               and_then (blob_unref p s3) (\<lambda>s4. Inr (Return_ahu [] blob_id [], s4)))
        | Some p \<Rightarrow>
            (case map_of (blobs s1) p of
               None \<Rightarrow> Inl Use_after_free
             | Some b \<Rightarrow>
                 if fd_list_append_fails E
                 then and_then (blob_unref p s1) (\<lambda>s2.
                        Inr (Return_error G_DBUS_ERROR_FAILED ''Failed to dup fd'', s2))
                 else
                   and_then (add_blob_to_peer sender p s1) (\<lambda>(blob_id, s2).
                   and_then (blob_unref p s2) (\<lambda>s3.
                     Inr (Return_ahu [0] blob_id [fd b], s3))))) = Inr (r, s')"
      by (simp only: mu_eq)
    then obtain blob s1 where lk: "lookup_blob sha s = Inr (blob, s1)"
      and rest: "(case blob of
          None \<Rightarrow>
            let (p, s2) = blob_new E fd0 sha s1
            in and_then (add_blob_to_peer sender p s2) (\<lambda>(blob_id, s3).
               and_then (blob_unref p s3) (\<lambda>s4. Inr (Return_ahu [] blob_id [], s4)))
        | Some p \<Rightarrow>
            (case map_of (blobs s1) p of
               None \<Rightarrow> Inl Use_after_free
             | Some b \<Rightarrow>
                 if fd_list_append_fails E
                 then and_then (blob_unref p s1) (\<lambda>s2.
                        Inr (Return_error G_DBUS_ERROR_FAILED ''Failed to dup fd'', s2))
                 else
                   and_then (add_blob_to_peer sender p s1) (\<lambda>(blob_id, s2).
                   and_then (blob_unref p s2) (\<lambda>s3.
                     Inr (Return_ahu [0] blob_id [fd b], s3))))) = Inr (r, s')"
      unfolding and_then_eq_Inr by (auto simp del: split_paired_Ex)
    from lookup_blob_dinv [OF inv lk] show ?thesis
    proof
      assume miss: "blob = None \<and> s1 = s \<and> map_of (blobs s) sha = None"
      obtain p s2 where new: "blob_new E fd0 sha s = (p, s2)" by (cases "blob_new E fd0 sha s")
      from blob_new_dinv [OF inv _ new] miss have p: "p = sha" and i2: "dinv (add_mset p H) s2"
        by simp_all
      from rest miss new
      have "and_then (add_blob_to_peer sender p s2) (\<lambda>(blob_id, s3).
               and_then (blob_unref p s3) (\<lambda>s4. Inr (Return_ahu [] blob_id [], s4))) = Inr (r, s')"
        by simp
      from add_then_unref_dinv [OF i2 this] show ?thesis .
    next
      assume hit: "blob = Some sha \<and> dinv (add_mset sha H) s1"
      then have i1: "dinv (add_mset sha H) s1" by simp
      from rest hit obtain b where b: "map_of (blobs s1) sha = Some b"
        by (auto split: option.splits)
      show ?thesis
      proof (cases "fd_list_append_fails E")
        case True
        with rest hit b obtain s2 where "blob_unref sha s1 = Inr s2" "s' = s2"
          by (auto simp: and_then_eq_Inr)
        with blob_unref_dinv [OF i1] show ?thesis by auto
      next
        case False
        with rest hit b
        have "and_then (add_blob_to_peer sender sha s1) (\<lambda>(blob_id, s2).
                   and_then (blob_unref sha s2) (\<lambda>s3.
                     Inr (Return_ahu [0] blob_id [fd b], s3))) = Inr (r, s')"
          by simp
        from add_then_unref_dinv [OF i1 this] show ?thesis .
      qed
    qed
  qed
next
  case (Tuple_u x)
  with mu have "s' = s" by (simp add: make_unique_def)
  with inv show ?thesis by simp
next
  case Other_type
  with mu have "s' = s" by (simp add: make_unique_def)
  with inv show ?thesis by simp
qed

lemma forget_dinv:
  assumes inv: "dinv H s"
  shows "\<exists>r s'. forget sender msg s = Inr (r, s') \<and> dinv H s'"
proof (cases "parameters msg")
  case (Tuple_u blob_id)
  from remove_blob_from_peer_dinv [OF inv, of sender blob_id] Tuple_u show ?thesis
    by (auto simp: forget_def)
qed (use inv in \<open>simp_all add: forget_def\<close>)

lemma method_call_dinv:
  assumes inv: "dinv H s" and mc: "method_call E sender interface_name method_name msg s = Inr (r, s')"
  shows "dinv H s'"
proof -
  consider "method_name = ''MakeUnique''" | "method_name \<noteq> ''MakeUnique''" "method_name = ''Forget''"
    | "method_name \<noteq> ''MakeUnique''" "method_name \<noteq> ''Forget''" by blast
  then show ?thesis
  proof cases
    case 1
    with mc have "make_unique E sender msg s = Inr (r, s')" by (simp add: method_call_def)
    from make_unique_dinv [OF inv this] show ?thesis .
  next
    case 2
    with mc have "forget sender msg s = Inr (r, s')" by (simp add: method_call_def)
    with forget_dinv [OF inv, of sender msg] show ?thesis by auto
  next
    case 3
    with mc have "s' = s" by (simp add: method_call_def)
    with inv show ?thesis by simp
  qed
qed

lemma handle_event_dinv:
  assumes inv: "dinv H s" and ev: "handle_event e s = Inr s'"
  shows "dinv H s'"
proof (cases e)
  case (Method_call E sender interface_name method_name msg)
  with ev obtain r where "method_call E sender interface_name method_name msg s = Inr (r, s')"
    by (auto simp: and_then_eq_Inr)
  from method_call_dinv [OF inv this] show ?thesis .
next
  case (Name_owner_changed nm old_owner new_owner)
  with ev name_owner_changed_dinv [OF inv, of nm old_owner new_owner] show ?thesis by auto
qed

lemma run_dinv:
  assumes "dinv H s" and "run evs s = Inr s'"
  shows "dinv H s'"
  using assms
proof (induction evs arbitrary: s)
  case Nil
  then show ?case by simp
next
  case (Cons e evs)
  from Cons.prems(2) obtain s1 where "handle_event e s = Inr s1" "run evs s1 = Inr s'"
    by (auto simp: and_then_eq_Inr)
  with Cons.IH handle_event_dinv [OF Cons.prems(1)] show ?case by blast
qed

lemma dinv_init: "dinv {#} daemon_init"
  by (simp add: dinv_def wf_peers_def binv_def daemon_init_def ptrs_def tbl_ptrs_def)

lemma reachable_dinv: "run evs daemon_init = Inr s \<Longrightarrow> dinv {#} s"
  using run_dinv [OF dinv_init] .

subsection \<open>Reading a descriptor to the end\<close>

lemma take_drop_length: "take n ys @ drop (length (take n ys)) ys = ys"
  by (cases "n \<le> length ys") (simp_all add: min_def)

lemma checksum_from_fd_reads_to_end:
  assumes "\<And>off. off \<le> length (file_data E fd0) \<Longrightarrow> \<not> pread_fails E fd0 off"
    and "offset \<le> length (file_data E fd0)"
  shows "checksum_from_fd E fd0 checksum offset = Some (checksum @ drop offset (file_data E fd0))"
  using assms
proof (induction E fd0 checksum offset rule: checksum_from_fd.induct)
  case (1 E fd0 checksum offset)
  let ?buf = "take 65536 (drop offset (file_data E fd0))"
  from "1.prems" have nf: "\<not> pread_fails E fd0 offset" by simp
  show ?case
  proof (cases "length ?buf > 0")
    case True
    from "1.prems"(2) have le: "offset + length ?buf \<le> length (file_data E fd0)" by simp
    from "1.IH" [OF nf refl True "1.prems"(1) le]
    have "checksum_from_fd E fd0 (checksum @ ?buf) (offset + length ?buf)
            = Some ((checksum @ ?buf) @ drop (offset + length ?buf) (file_data E fd0))" .
    moreover have "?buf @ drop (offset + length ?buf) (file_data E fd0) = drop offset (file_data E fd0)"
      using take_drop_length [of 65536 "drop offset (file_data E fd0)"]
      by (simp add: add.commute)
    ultimately show ?thesis
      using nf True by (subst checksum_from_fd.simps) (simp add: Let_def)
  next
    case False
    then have "drop offset (file_data E fd0) = []" by simp
    with nf False show ?thesis
      by (subst checksum_from_fd.simps) (simp add: Let_def)
  qed
qed

lemma checksum_from_fd_reads_all:
  assumes "\<And>off. \<not> pread_fails E fd0 off"
  shows "checksum_from_fd E fd0 checksum 0 = Some (checksum @ file_data E fd0)"
  using checksum_from_fd_reads_to_end [of E fd0 0 checksum] assms by simp

lemma checksum_from_fd_result:
  "checksum_from_fd E fd0 checksum offset = Some r \<Longrightarrow>
     r = checksum @ drop offset (file_data E fd0)"
proof (induction E fd0 checksum offset rule: checksum_from_fd.induct)
  case (1 E fd0 checksum offset)
  let ?buf = "take 65536 (drop offset (file_data E fd0))"
  from "1.prems" have nf: "\<not> pread_fails E fd0 offset"
    by (subst (asm) checksum_from_fd.simps) (simp split: if_splits)
  show ?case
  proof (cases "length ?buf > 0")
    case True
    from "1.prems" nf True
    have "checksum_from_fd E fd0 (checksum @ ?buf) (offset + length ?buf) = Some r"
      by (subst (asm) checksum_from_fd.simps) (simp add: Let_def)
    from "1.IH" [OF nf refl True this]
    have "r = (checksum @ ?buf) @ drop (offset + length ?buf) (file_data E fd0)" .
    moreover have "?buf @ drop (offset + length ?buf) (file_data E fd0) = drop offset (file_data E fd0)"
      using take_drop_length [of 65536 "drop offset (file_data E fd0)"]
      by (simp add: add.commute)
    ultimately show ?thesis by simp
  next
    case False
    then have "drop offset (file_data E fd0) = []" by simp
    with "1.prems" nf False show ?thesis
      by (subst (asm) checksum_from_fd.simps) (simp add: Let_def)
  qed
qed

subsection \<open>The observations in terms of the multiset of pointers\<close>

lemma count_image_mset_filter:
  "count (image_mset g (mset es)) k = length (filter (\<lambda>x. g x = k) es)"
  by (induction es) auto

lemma handle_entries_ptrs:
  "image_mset (\<lambda>e. snd (snd e)) (mset (handle_entries s)) = ptrs s"
proof -
  have "image_mset (\<lambda>e. snd (snd e))
          (mset (concat (map (\<lambda>(n, peer). map (\<lambda>(h, p). (n, h, p)) (peer_blobs peer)) ps)))
        = tbl_ptrs ps" for ps :: "(string \<times> Peer) list"
  proof (induction ps)
    case Nil
    show ?case by (simp add: tbl_ptrs_def)
  next
    case (Cons x ps)
    obtain n peer where x: "x = (n, peer)" by (cases x)
    have "image_mset (\<lambda>e. snd (snd e)) (mset (map (\<lambda>(h, p). (n, h, p)) (peer_blobs peer)))
            = mset (map snd (peer_blobs peer))"
      by (induction "peer_blobs peer") (auto simp: case_prod_beta multiset.map_comp comp_def)
    with Cons show ?case
      by (simp add: x tbl_ptrs_def)
  qed
  then show ?thesis by (simp add: handle_entries_def ptrs_def)
qed

lemma refs_to_count: "refs_to s k = count (ptrs s) k"
proof -
  have "refs_to s k = length (filter (\<lambda>e. snd (snd e) = k) (handle_entries s))"
    by (simp add: refs_to_def case_prod_unfold)
  also have "\<dots> = count (image_mset (\<lambda>e. snd (snd e)) (mset (handle_entries s))) k"
    by (simp add: count_image_mset_filter)
  finally show ?thesis by (simp add: handle_entries_ptrs)
qed

subsection \<open>Sums of lengths\<close>

lemma unat_sum_list:
  "unat (sum_list (ws :: 'a::len word list)) = sum_list (map unat ws) mod 2 ^ LENGTH('a)"
proof (induction ws)
  case Nil
  show ?case by simp
next
  case (Cons w ws)
  have "unat (w + sum_list ws) = (unat w + unat (sum_list ws)) mod 2 ^ LENGTH('a)"
    by (simp add: unat_word_ariths)
  also have "\<dots> = (unat w + sum_list (map unat ws) mod 2 ^ LENGTH('a)) mod 2 ^ LENGTH('a)"
    by (simp only: Cons.IH)
  also have "\<dots> = (unat w + sum_list (map unat ws)) mod 2 ^ LENGTH('a)"
    by (simp add: mod_add_right_eq)
  finally show ?case by simp
qed

lemma sum_list_le_sum_mset:
  fixes f :: "'v \<Rightarrow> nat" and g :: "'k \<Rightarrow> nat"
  assumes "distinct (map fst xs)"
    and "\<And>k b. (k, b) \<in> set xs \<Longrightarrow> k \<in># M \<and> g k = f b"
  shows "(\<Sum>x\<leftarrow>xs. f (snd x)) \<le> (\<Sum>p \<in># M. g p)"
  using assms
proof (induction xs arbitrary: M)
  case Nil
  show ?case by simp
next
  case (Cons x xs)
  obtain k b where x: "x = (k, b)" by (cases x)
  from Cons.prems(2) [of k b] x have kM: "k \<in># M" and gk: "g k = f b" by simp_all
  define M' where "M' = M - {#k#}"
  from kM have M: "M = add_mset k M'" by (simp add: M'_def)
  have "(\<Sum>x\<leftarrow>xs. f (snd x)) \<le> (\<Sum>p \<in># M'. g p)"
  proof (rule Cons.IH)
    show "distinct (map fst xs)" using Cons.prems(1) by simp
  next
    fix k' b' assume mem: "(k', b') \<in> set xs"
    with Cons.prems(1) x have "k' \<noteq> k" by (auto simp: image_iff)
    moreover from Cons.prems(2) [of k' b'] mem have "k' \<in># M" "g k' = f b'" by simp_all
    ultimately show "k' \<in># M' \<and> g k' = f b'" by (simp add: M)
  qed
  then show ?case by (simp add: x M gk)
qed

lemma sum_handle_entries:
  "(\<Sum>e\<leftarrow>handle_entries s. f (snd (snd e))) = (\<Sum>p \<in># ptrs s. f p)"
proof -
  have "(\<Sum>e\<leftarrow>handle_entries s. f (snd (snd e)))
          = sum_mset (image_mset f (image_mset (\<lambda>e. snd (snd e)) (mset (handle_entries s))))"
    by (simp add: sum_mset_sum_list [symmetric] multiset.map_comp comp_def)
  then show ?thesis by (simp only: handle_entries_ptrs)
qed

subsection \<open>The worked examples\<close>

lemmas daemon_defs = make_unique_def steal_one_fd_from_list_def lookup_blob_def blob_new_def
  add_blob_to_peer_def lookup_peer_def blob_ref_def blob_unref_def removed_blob_from_peer_cb_def
  remove_blob_from_peer_def forget_def ALL_SEALS_def F_SEAL_SEAL_def F_SEAL_SHRINK_def
  F_SEAL_GROW_def F_SEAL_WRITE_def INT_MAX_def INT_MIN_def Let_def

lemma example_env_sel [simp]:
  "fcntl_get_seals example_env fd0 = 15" "fstat_size example_env fd0 = Some 2"
  "fd_list_append_fails example_env = False" "sha256_hex example_env = example_digest"
  by (simp_all add: example_env_def)

lemma example_checksum: "checksum_from_fd example_env fd0 [] 0 = Some [72, 105]"
  using checksum_from_fd_reads_all [of example_env fd0 "[]"] by (simp add: example_env_def)

lemma example_submit1:
  "make_unique example_env '':1.1'' example_msg daemon_init
     = Inr (Return_ahu [] 1 [], example_state1)"
  by (simp add: daemon_defs example_checksum example_msg_def daemon_init_def
      example_state1_def example_blob_def example_peer_def)

lemma example_submit2:
  "make_unique example_env '':1.2'' example_msg example_state1
     = Inr (Return_ahu [0] 1 [5], example_state2)"
  by (simp add: daemon_defs example_checksum example_msg_def
      example_state1_def example_state2_def example_blob_def example_peer_def)

lemma example_run1: "run [submit '':1.1''] daemon_init = Inr example_state1"
  by (simp add: submit_def method_call_def example_submit1)

lemma example_run2: "run [submit '':1.1'', submit '':1.2''] daemon_init = Inr example_state2"
  by (simp add: submit_def method_call_def example_submit1 example_submit2)

lemma huge_file_length: "length huge_file = 9223372036854710271"
  by (simp add: huge_file_def)

lemma huge_env_sel [simp]:
  "fcntl_get_seals huge_env fd0 = 15" "fstat_size huge_env fd0 = Some 9223372036854710271"
  "fd_list_append_fails huge_env = False" "sha256_hex huge_env = example_digest"
  "file_data huge_env fd0 = huge_file"
  "pread_fails huge_env fd0 offset \<longleftrightarrow> 9223372036854710271 < offset"
  by (auto simp: huge_env_def)

lemma huge_checksum: "checksum_from_fd huge_env fd0 [] 0 = Some huge_file"
  using checksum_from_fd_reads_to_end [of huge_env fd0 0 "[]"] by (simp add: huge_file_length)

text \<open>
  The read at offset \<open>2^63 - 65536\<close>, which the loop reaches on a file of
  \<open>2^63 - 1\<close> bytes, fails; the one at \<open>2^63 - 65537\<close> does not.
\<close>

lemma huge_pread_limit:
  "pread_fails huge_env fd0 (2 ^ 63 - 65536)" "\<not> pread_fails huge_env fd0 (2 ^ 63 - 65537)"
  by simp_all

lemma huge_run:
  "run [huge_submit, huge_submit, huge_submit] daemon_init = Inr huge_state"
  by (simp add: huge_submit_def method_call_def daemon_defs huge_checksum example_msg_def
      daemon_init_def huge_state_def)

lemma example_death:
  "name_owner_changed '':1.2'' '':1.2'' [] example_state2 = Inr example_state1"
  by (simp add: name_owner_changed_def peer_free_def daemon_defs
      example_state1_def example_state2_def example_blob_def example_peer_def)

lemma example_forget:
  "forget '':1.1'' \<lparr>parameters = Tuple_u 1, unix_fd_list = None\<rparr> example_state1
     = Inr (Return_unit, example_forgotten)"
  by (simp add: daemon_defs example_state1_def example_forgotten_def example_peer_def
      example_blob_def)

section \<open>What the handlers compute\<close>

subsection \<open>Releasing the entries of a peer\<close>

lemma cb_blobs:
  assumes "map_of (blobs s) p = Some b" and "sha256 b = p" and "INT_MIN < ref_count b"
  shows "\<exists>s'. removed_blob_from_peer_cb p s = Inr s'
           \<and> map_of (blobs s') = (map_of (blobs s))
                (p := if ref_count b = 1 then None else Some (b\<lparr>ref_count := ref_count b - 1\<rparr>))"
  using assms
  by (simp add: removed_blob_from_peer_cb_def blob_unref_def delete_conv' update_conv' delete_idem)

lemma destroy_values_exact:
  assumes "binv (M + mset qs) (A + mset qs) s" and "A \<subseteq># M"
  shows "\<exists>s'. destroy_values qs s = Inr s' \<and> binv M A s' \<and> peers s' = peers s
           \<and> apparent_blob_size s' = apparent_blob_size s - (\<Sum>q\<leftarrow>qs. blen s q)
           \<and> (\<forall>k. map_of (blobs s') k =
                 (case map_of (blobs s) k of
                    None \<Rightarrow> None
                  | Some b \<Rightarrow>
                      if ref_count b = int (count_list qs k) then None
                      else Some (b\<lparr>ref_count := ref_count b - int (count_list qs k)\<rparr>)))"
  using assms
proof (induction qs arbitrary: s)
  case Nil
  have "ref_count b \<noteq> 0" if "map_of (blobs s) k = Some b" for k b
    using binv_blob [OF Nil(1) that] by auto
  with Nil show ?case by (auto split: option.splits)
next
  case (Cons q qs)
  let ?M = "M + mset qs" and ?A = "A + mset qs"
  from Cons.prems(1) have bi: "binv (add_mset q ?M) (add_mset q ?A) s" by simp
  from Cons.prems(2) have sub: "?A \<subseteq># ?M" by simp
  from binv_live [OF bi, of q] obtain b where b: "map_of (blobs s) q = Some b" by auto
  from binv_blob [OF bi b] have sha: "sha256 b = q"
    and rc: "ref_count b = int (count ?M q) + 1" by simp_all
  from rc have "INT_MIN < ref_count b" using INT_MIN_neg by linarith
  from cb_blobs [OF b sha this] obtain s1 where cb: "removed_blob_from_peer_cb q s = Inr s1"
    and mp1: "map_of (blobs s1) = (map_of (blobs s))
                (q := if ref_count b = 1 then None else Some (b\<lparr>ref_count := ref_count b - 1\<rparr>))"
    by blast
  from cb_binv [OF bi sub] cb have bi1: "binv ?M ?A s1" and p1: "peers s1 = peers s"
    and a1: "apparent_blob_size s1 = apparent_blob_size s - blen s q"
    and bl1: "\<forall>q'. q' \<in># ?M \<longrightarrow> blen s1 q' = blen s q'"
    by auto
  from Cons.IH [OF bi1 Cons.prems(2)] obtain s' where dv: "destroy_values qs s1 = Inr s'"
    and bi': "binv M A s'" and p': "peers s' = peers s1"
    and a': "apparent_blob_size s' = apparent_blob_size s1 - (\<Sum>q\<leftarrow>qs. blen s1 q)"
    and mp': "\<forall>k. map_of (blobs s') k =
                 (case map_of (blobs s1) k of
                    None \<Rightarrow> None
                  | Some b \<Rightarrow>
                      if ref_count b = int (count_list qs k) then None
                      else Some (b\<lparr>ref_count := ref_count b - int (count_list qs k)\<rparr>))"
    by blast
  have "map (blen s1) qs = map (blen s) qs"
    using bl1 by (auto simp: in_multiset_in_set)
  then have sums: "(\<Sum>q\<leftarrow>qs. blen s1 q) = (\<Sum>q\<leftarrow>qs. blen s q)"
    by (simp only:)
  have cnt: "int (count_list qs q) \<le> int (count ?M q)"
    by (simp add: count_mset)
  have "map_of (blobs s') k =
          (case map_of (blobs s) k of
             None \<Rightarrow> None
           | Some b \<Rightarrow>
               if ref_count b = int (count_list (q # qs) k) then None
               else Some (b\<lparr>ref_count := ref_count b - int (count_list (q # qs) k)\<rparr>))" for k
  proof (cases "k = q")
    case False
    then show ?thesis using mp' [rule_format, of k] by (auto simp: mp1 split: option.splits)
  next
    case True
    show ?thesis
    proof (cases "ref_count b = 1")
      case one: True
      with rc cnt have "count_list qs q = 0" by simp
      with one True b show ?thesis using mp' [rule_format, of k] by (simp add: mp1)
    next
      case notone: False
      with True b show ?thesis using mp' [rule_format, of k]
        by (auto simp: mp1 algebra_simps)
    qed
  qed
  with cb dv bi' p' p1 a' a1 sums show ?case
    by (simp add: algebra_simps)
qed

lemma handle_entries_names:
  "(n, h, p) \<in> set (handle_entries s) \<Longrightarrow> n \<in> fst ` set (peers s)"
  by (force simp: handle_entries_def)

lemma handle_entries_iff:
  assumes "distinct (map fst (peers s))"
  shows "(n, h, p) \<in> set (handle_entries s) \<longleftrightarrow>
           (\<exists>peer. map_of (peers s) n = Some peer \<and> (h, p) \<in> set (peer_blobs peer))"
  using assms by (auto simp: handle_entries_def)

subsection \<open>A successful submission\<close>

lemma steal_one_fd_from_list_Inr:
  assumes "steal_one_fd_from_list fd_list handle = Inr fd0" and "fd0 \<noteq> - 1"
  shows "\<exists>fds. fd_list = Some fds \<and> 0 \<le> handle \<and> handle < int (length fds) \<and> fd0 = fds ! nat handle"
  using assms by (auto simp: steal_one_fd_from_list_def split: option.splits if_splits)

lemma make_unique_success:
  assumes mu: "make_unique E sender msg s = Inr (Return_ahu ah h rf, s1)"
  shows "\<exists>i fds. parameters msg = Tuple_h i \<and> unix_fd_list msg = Some fds
           \<and> 0 \<le> i \<and> i < int (length fds)
           \<and> ((map_of (blobs s) (sha256_hex E (file_data E (fds ! nat i))) = None
                 \<and> ah = [] \<and> rf = []
                 \<and> (\<exists>s_b. add_blob_to_peer sender (sha256_hex E (file_data E (fds ! nat i)))
                              (snd (blob_new E (fds ! nat i)
                                      (sha256_hex E (file_data E (fds ! nat i))) s))
                            = Inr (h, s_b)
                          \<and> blob_unref (sha256_hex E (file_data E (fds ! nat i))) s_b = Inr s1))
              \<or> (\<exists>b s_a s_b.
                    map_of (blobs s) (sha256_hex E (file_data E (fds ! nat i))) = Some b
                  \<and> ah = [0] \<and> rf = [fd b]
                  \<and> blob_ref (sha256_hex E (file_data E (fds ! nat i))) s = Inr s_a
                  \<and> add_blob_to_peer sender (sha256_hex E (file_data E (fds ! nat i))) s_a
                      = Inr (h, s_b)
                  \<and> blob_unref (sha256_hex E (file_data E (fds ! nat i))) s_b = Inr s1))"
proof (cases "parameters msg")
  case (Tuple_h handle)
  from mu Tuple_h obtain fd0 where st: "steal_one_fd_from_list (unix_fd_list msg) handle = Inr fd0"
    by (auto simp: make_unique_def and_then_eq_Inr)
  have ok: "\<not> (fd0 = - 1 \<or> fcntl_get_seals E fd0 = - 1
                 \<or> fcntl_get_seals E fd0 AND ALL_SEALS \<noteq> ALL_SEALS
                 \<or> checksum_from_fd E fd0 [] 0 = None)"
  proof
    assume "fd0 = - 1 \<or> fcntl_get_seals E fd0 = - 1
                 \<or> fcntl_get_seals E fd0 AND ALL_SEALS \<noteq> ALL_SEALS
                 \<or> checksum_from_fd E fd0 [] 0 = None"
    with mu Tuple_h st show False
      by (auto simp: make_unique_def Let_def split: if_splits)
  qed
  then obtain checksum where ck: "checksum_from_fd E fd0 [] 0 = Some checksum" by auto
  from checksum_from_fd_result [OF ck] have cs: "checksum = file_data E fd0" by simp
  from ok steal_one_fd_from_list_Inr [OF st] obtain fds where fds: "unix_fd_list msg = Some fds"
    "0 \<le> handle" "handle < int (length fds)" "fd0 = fds ! nat handle" by auto
  define sha where "sha = sha256_hex E (file_data E fd0)"
  have mu_eq: "make_unique E sender msg s = and_then (lookup_blob sha s) (\<lambda>(blob, s1).
        case blob of
          None \<Rightarrow>
            let (p, s2) = blob_new E fd0 sha s1
            in and_then (add_blob_to_peer sender p s2) (\<lambda>(blob_id, s3).
               and_then (blob_unref p s3) (\<lambda>s4. Inr (Return_ahu [] blob_id [], s4)))
        | Some p \<Rightarrow>
            (case map_of (blobs s1) p of
               None \<Rightarrow> Inl Use_after_free
             | Some b \<Rightarrow>
                 if fd_list_append_fails E
                 then and_then (blob_unref p s1) (\<lambda>s2.
                        Inr (Return_error G_DBUS_ERROR_FAILED ''Failed to dup fd'', s2))
                 else
                   and_then (add_blob_to_peer sender p s1) (\<lambda>(blob_id, s2).
                   and_then (blob_unref p s2) (\<lambda>s3.
                     Inr (Return_ahu [0] blob_id [fd b], s3)))))"
    unfolding sha_def using Tuple_h st ok ck cs by (simp add: make_unique_def Let_def)
  show ?thesis
  proof (cases "map_of (blobs s) sha")
    case None
    then have lk: "lookup_blob sha s = Inr (None, s)" by (simp add: lookup_blob_def)
    define s_a where "s_a = snd (blob_new E fd0 sha s)"
    have bn: "blob_new E fd0 sha s = (sha, s_a)"
      by (simp add: s_a_def blob_new_def Let_def)
    from mu have "and_then (add_blob_to_peer sender sha s_a)
        (\<lambda>(blob_id, s3). and_then (blob_unref sha s3) (\<lambda>s4. Inr (Return_ahu [] blob_id [], s4)))
        = Inr (Return_ahu ah h rf, s1)"
      unfolding mu_eq lk by (subst (asm) and_then_Inr) (simp add: bn)
    then obtain s_b where "add_blob_to_peer sender sha s_a = Inr (h, s_b)"
      "blob_unref sha s_b = Inr s1" "ah = []" "rf = []"
      by (auto simp: and_then_eq_Inr)
    with None Tuple_h fds show ?thesis unfolding sha_def s_a_def by blast
  next
    case (Some b)
    from mu obtain s_a where lk: "lookup_blob sha s = Inr (Some sha, s_a)"
      and ref: "blob_ref sha s = Inr s_a"
      unfolding mu_eq using Some by (auto simp: and_then_eq_Inr lookup_blob_def)
    from ref Some have sa: "map_of (blobs s_a) sha = Some (b\<lparr>ref_count := ref_count b + 1\<rparr>)"
      by (auto simp: blob_ref_def update_conv' split: if_splits)
    from mu have "and_then (add_blob_to_peer sender sha s_a)
        (\<lambda>(blob_id, s2). and_then (blob_unref sha s2)
           (\<lambda>s3. Inr (Return_ahu [0] blob_id [fd b], s3)))
        = Inr (Return_ahu ah h rf, s1)"
      unfolding mu_eq lk
      by (subst (asm) and_then_Inr) (auto simp: sa and_then_eq_Inr split: if_splits)
    then obtain s_b where "add_blob_to_peer sender sha s_a = Inr (h, s_b)"
      "blob_unref sha s_b = Inr s1" "ah = [0]" "rf = [fd b]"
      by (auto simp: and_then_eq_Inr)
    with Some ref Tuple_h fds show ?thesis unfolding sha_def by blast
  qed
next
  case (Tuple_u x)
  with mu show ?thesis by (simp add: make_unique_def)
next
  case Other_type
  with mu show ?thesis by (simp add: make_unique_def)
qed

lemma blob_ref_frame:
  assumes "blob_ref p s = Inr s'"
  shows "peers s' = peers s" and "fst ` set (blobs s') = fst ` set (blobs s)"
proof -
  from assms obtain b where b: "map_of (blobs s) p = Some b"
    and s': "s' = s\<lparr>blobs := AList.update p (b\<lparr>ref_count := ref_count b + 1\<rparr>) (blobs s)\<rparr>"
    by (auto simp: blob_ref_def split: option.splits if_splits)
  show "peers s' = peers s" by (simp add: s')
  from b have "p \<in> fst ` set (blobs s)" by (auto dest: map_of_SomeD intro: rev_image_eqI)
  then show "fst ` set (blobs s') = fst ` set (blobs s)"
    by (auto simp: s' dom_update)
qed

lemma blob_unref_frame:
  assumes "blob_unref p s = Inr s'"
  shows "peers s' = peers s" and "fst ` set (blobs s') \<subseteq> fst ` set (blobs s)"
proof -
  from assms obtain b where b: "map_of (blobs s) p = Some b"
    and s': "s' = s\<lparr>real_blob_size := real_blob_size s - len b,
                     blobs := AList.delete p (AList.delete (sha256 b) (blobs s))\<rparr>
           \<or> s' = s\<lparr>blobs := AList.update p (b\<lparr>ref_count := ref_count b - 1\<rparr>) (blobs s)\<rparr>"
    by (auto simp: blob_unref_def split: option.splits if_splits)
  from s' show "peers s' = peers s" by auto
  from b have mem: "p \<in> fst ` set (blobs s)" by (auto dest: map_of_SomeD intro: rev_image_eqI)
  from s' show "fst ` set (blobs s') \<subseteq> fst ` set (blobs s)"
  proof
    assume "s' = s\<lparr>real_blob_size := real_blob_size s - len b,
                     blobs := AList.delete p (AList.delete (sha256 b) (blobs s))\<rparr>"
    then have "blobs s' = AList.delete p (AList.delete (sha256 b) (blobs s))" by simp
    then have "fst ` set (blobs s') \<subseteq> fst ` set (AList.delete (sha256 b) (blobs s))"
      by (simp only: dom_delete_subset)
    also have "\<dots> \<subseteq> fst ` set (blobs s)"
      by (rule dom_delete_subset)
    finally show ?thesis .
  next
    assume "s' = s\<lparr>blobs := AList.update p (b\<lparr>ref_count := ref_count b - 1\<rparr>) (blobs s)\<rparr>"
    then have "fst ` set (blobs s') = {p} \<union> fst ` set (blobs s)" by (simp add: dom_update)
    with mem show ?thesis by blast
  qed
qed

lemma cb_frame:
  assumes "removed_blob_from_peer_cb p s = Inr s'"
  shows "peers s' = peers s" and "fst ` set (blobs s') \<subseteq> fst ` set (blobs s)"
proof -
  from assms obtain b where b: "map_of (blobs s) p = Some b"
    by (cases "map_of (blobs s) p") (simp_all add: removed_blob_from_peer_cb_def)
  with assms have "blob_unref p (s\<lparr>apparent_blob_size := apparent_blob_size s - len b\<rparr>) = Inr s'"
    by (simp add: removed_blob_from_peer_cb_def)
  from blob_unref_frame [OF this]
  show "peers s' = peers s" and "fst ` set (blobs s') \<subseteq> fst ` set (blobs s)" by simp_all
qed

lemma lookup_peer_map:
  "map_of (peers (snd (lookup_peer n s))) = (map_of (peers s))(n \<mapsto> fst (lookup_peer n s))"
  by (auto simp: lookup_peer_def Let_def update_conv' fun_eq_iff split: option.splits)

lemma add_blob_to_peer_frame:
  assumes add: "add_blob_to_peer sender p s = Inr (h, s')"
  shows "h = next_blob_id (fst (lookup_peer sender s))"
    and "fst ` set (blobs s') \<subseteq> fst ` set (blobs s)"
    and "map_of (peers s') = (map_of (peers s))
           (sender \<mapsto> (fst (lookup_peer sender s))
              \<lparr>next_blob_id := h + 1,
               peer_blobs := AList.update h p (peer_blobs (fst (lookup_peer sender s)))\<rparr>)"
proof -
  obtain peer s1 where lk: "lookup_peer sender s = (peer, s1)" by (cases "lookup_peer sender s")
  have s1: "blobs s1 = blobs s" "apparent_blob_size s1 = apparent_blob_size s"
    using lk by (auto simp: lookup_peer_def Let_def split: option.splits)
  have m1: "map_of (peers s1) = (map_of (peers s))(sender \<mapsto> peer)"
    using lookup_peer_map [of sender s] lk by simp
  from add lk obtain b where b: "map_of (blobs s1) p = Some b"
    by (auto simp: add_blob_to_peer_def Let_def split: option.splits)
  define s1a where "s1a = s1\<lparr>apparent_blob_size := apparent_blob_size s1 + len b\<rparr>"
  define peer2 where "peer2 = peer\<lparr>next_blob_id := next_blob_id peer + 1,
      peer_blobs := AList.update (next_blob_id peer) p (peer_blobs peer)\<rparr>"
  from add lk b obtain s2 where s2: "blob_ref p s1a = Inr s2"
    by (auto simp: add_blob_to_peer_def Let_def s1a_def and_then_eq_Inr)
  define s3 where "s3 = s2\<lparr>peers := AList.update sender peer2 (peers s2)\<rparr>"
  have fin: "(case map_of (peer_blobs peer) (next_blob_id peer) of
               None \<Rightarrow> Inr (next_blob_id peer, s3)
             | Some q \<Rightarrow> and_then (removed_blob_from_peer_cb q s3) (\<lambda>s4. Inr (next_blob_id peer, s4)))
             = Inr (h, s')"
    using add lk b s2 unfolding s3_def peer2_def
    by (simp add: add_blob_to_peer_def Let_def s1a_def [symmetric])
  from blob_ref_frame [OF s2] have f2: "peers s2 = peers s1"
    "fst ` set (blobs s2) = fst ` set (blobs s)"
    by (simp_all add: s1a_def s1)
  have m3: "map_of (peers s3) = (map_of (peers s))(sender \<mapsto> peer2)"
    by (simp add: s3_def f2 update_conv' m1)
  have k3: "fst ` set (blobs s3) = fst ` set (blobs s)"
    by (simp add: s3_def f2)
  have "h = next_blob_id peer \<and> peers s' = peers s3 \<and> fst ` set (blobs s') \<subseteq> fst ` set (blobs s3)"
  proof (cases "map_of (peer_blobs peer) (next_blob_id peer)")
    case None
    with fin show ?thesis by simp
  next
    case (Some q)
    with fin obtain s4 where "removed_blob_from_peer_cb q s3 = Inr s4" "s' = s4" "h = next_blob_id peer"
      by (auto simp: and_then_eq_Inr)
    with cb_frame [OF this(1)] show ?thesis by simp
  qed
  with m3 k3 lk show "h = next_blob_id (fst (lookup_peer sender s))"
    and "fst ` set (blobs s') \<subseteq> fst ` set (blobs s)"
    and "map_of (peers s') = (map_of (peers s))
           (sender \<mapsto> (fst (lookup_peer sender s))
              \<lparr>next_blob_id := h + 1,
               peer_blobs := AList.update h p (peer_blobs (fst (lookup_peer sender s)))\<rparr>)"
    by (simp_all add: peer2_def)
qed

lemma blob_new_frame:
  "peers (snd (blob_new E fd0 sha s)) = peers s"
  "fst ` set (blobs (snd (blob_new E fd0 sha s))) = insert sha (fst ` set (blobs s))"
  by (simp_all add: blob_new_def Let_def dom_update)

lemma make_unique_success_msg:
  assumes "make_unique E sender msg s = Inr (Return_ahu ah h rf, s1)"
  shows "\<exists>i fds. parameters msg = Tuple_h i \<and> unix_fd_list msg = Some fds
           \<and> 0 \<le> i \<and> i < int (length fds)"
  using make_unique_success [OF assms] by (elim exE conjE) (intro exI conjI; assumption)

lemma make_unique_success_cases:
  assumes mu: "make_unique E sender msg s = Inr (Return_ahu ah h rf, s1)"
    and msg: "parameters msg = Tuple_h i" "unix_fd_list msg = Some fds"
  obtains (miss) s_b where "map_of (blobs s) (sha256_hex E (file_data E (fds ! nat i))) = None"
      "ah = []" "rf = []"
      "add_blob_to_peer sender (sha256_hex E (file_data E (fds ! nat i)))
         (snd (blob_new E (fds ! nat i) (sha256_hex E (file_data E (fds ! nat i))) s)) = Inr (h, s_b)"
      "blob_unref (sha256_hex E (file_data E (fds ! nat i))) s_b = Inr s1"
    | (hit) b s_a s_b where "map_of (blobs s) (sha256_hex E (file_data E (fds ! nat i))) = Some b"
      "ah = [0]" "rf = [fd b]"
      "blob_ref (sha256_hex E (file_data E (fds ! nat i))) s = Inr s_a"
      "add_blob_to_peer sender (sha256_hex E (file_data E (fds ! nat i))) s_a = Inr (h, s_b)"
      "blob_unref (sha256_hex E (file_data E (fds ! nat i))) s_b = Inr s1"
proof -
  from make_unique_success [OF mu] obtain i' fds' where m': "parameters msg = Tuple_h i'"
    "unix_fd_list msg = Some fds'"
    and d: "(map_of (blobs s) (sha256_hex E (file_data E (fds' ! nat i'))) = None
                 \<and> ah = [] \<and> rf = []
                 \<and> (\<exists>s_b. add_blob_to_peer sender (sha256_hex E (file_data E (fds' ! nat i')))
                              (snd (blob_new E (fds' ! nat i')
                                      (sha256_hex E (file_data E (fds' ! nat i'))) s))
                            = Inr (h, s_b)
                          \<and> blob_unref (sha256_hex E (file_data E (fds' ! nat i'))) s_b = Inr s1))
              \<or> (\<exists>b s_a s_b.
                    map_of (blobs s) (sha256_hex E (file_data E (fds' ! nat i'))) = Some b
                  \<and> ah = [0] \<and> rf = [fd b]
                  \<and> blob_ref (sha256_hex E (file_data E (fds' ! nat i'))) s = Inr s_a
                  \<and> add_blob_to_peer sender (sha256_hex E (file_data E (fds' ! nat i'))) s_a
                      = Inr (h, s_b)
                  \<and> blob_unref (sha256_hex E (file_data E (fds' ! nat i'))) s_b = Inr s1)"
    by (elim exE conjE) (rule that; assumption)
  from m' msg have eq: "i' = i" "fds' = fds" by simp_all
  from d show thesis
    unfolding eq
  proof (elim disjE exE conjE)
    fix s_b
    assume "map_of (blobs s) (sha256_hex E (file_data E (fds ! nat i))) = None"
      "ah = []" "rf = []"
      "add_blob_to_peer sender (sha256_hex E (file_data E (fds ! nat i)))
         (snd (blob_new E (fds ! nat i) (sha256_hex E (file_data E (fds ! nat i))) s)) = Inr (h, s_b)"
      "blob_unref (sha256_hex E (file_data E (fds ! nat i))) s_b = Inr s1"
    then show thesis by (rule miss)
  next
    fix b s_a s_b
    assume "map_of (blobs s) (sha256_hex E (file_data E (fds ! nat i))) = Some b"
      "ah = [0]" "rf = [fd b]"
      "blob_ref (sha256_hex E (file_data E (fds ! nat i))) s = Inr s_a"
      "add_blob_to_peer sender (sha256_hex E (file_data E (fds ! nat i))) s_a = Inr (h, s_b)"
      "blob_unref (sha256_hex E (file_data E (fds ! nat i))) s_b = Inr s1"
    then show thesis by (rule hit)
  qed
qed

text \<open>What a successful submission leaves behind, whichever branch it took.\<close>

lemma make_unique_frame:
  assumes mu: "make_unique E sender msg s = Inr (Return_ahu ah h rf, s1)"
    and msg: "parameters msg = Tuple_h i" "unix_fd_list msg = Some fds"
  shows "h = next_blob_id (fst (lookup_peer sender s))"
    and "fst ` set (blobs s1) \<subseteq> insert (sha256_hex E (file_data E (fds ! nat i))) (fst ` set (blobs s))"
    and "map_of (blobs s) (sha256_hex E (file_data E (fds ! nat i))) \<noteq> None \<Longrightarrow>
           fst ` set (blobs s1) \<subseteq> fst ` set (blobs s)"
    and "map_of (peers s1) = (map_of (peers s))
           (sender \<mapsto> (fst (lookup_peer sender s))
              \<lparr>next_blob_id := h + 1,
               peer_blobs := AList.update h (sha256_hex E (file_data E (fds ! nat i)))
                               (peer_blobs (fst (lookup_peer sender s)))\<rparr>)"
proof -
  let ?sha = "sha256_hex E (file_data E (fds ! nat i))"
  let ?P = "(fst (lookup_peer sender s))
              \<lparr>next_blob_id := h + 1,
               peer_blobs := AList.update h ?sha (peer_blobs (fst (lookup_peer sender s)))\<rparr>"
  have "h = next_blob_id (fst (lookup_peer sender s))
    \<and> fst ` set (blobs s1) \<subseteq> insert ?sha (fst ` set (blobs s))
    \<and> (map_of (blobs s) ?sha \<noteq> None \<longrightarrow> fst ` set (blobs s1) \<subseteq> fst ` set (blobs s))
    \<and> map_of (peers s1) = (map_of (peers s))(sender \<mapsto> ?P)"
  proof (rule make_unique_success_cases [OF mu msg])
    fix s_b
    let ?s_a = "snd (blob_new E (fds ! nat i) ?sha s)"
    assume miss: "map_of (blobs s) ?sha = None"
      and add: "add_blob_to_peer sender ?sha ?s_a = Inr (h, s_b)"
      and un: "blob_unref ?sha s_b = Inr s1"
    have lp: "fst (lookup_peer sender ?s_a) = fst (lookup_peer sender s)"
      by (simp add: lookup_peer_def blob_new_frame Let_def split: option.splits)
    note a = add_blob_to_peer_frame [OF add]
    note u = blob_unref_frame [OF un]
    have "fst ` set (blobs s1) \<subseteq> fst ` set (blobs s_b)" by (rule u(2))
    also have "\<dots> \<subseteq> fst ` set (blobs ?s_a)" by (rule a(2))
    also have "\<dots> = insert ?sha (fst ` set (blobs s))" by (rule blob_new_frame)
    finally have k: "fst ` set (blobs s1) \<subseteq> insert ?sha (fst ` set (blobs s))" .
    have "map_of (peers s1) = (map_of (peers s))(sender \<mapsto> ?P)"
      unfolding u(1) a(3) lp blob_new_frame ..
    with k a(1) miss show ?thesis by (simp add: lp)
  next
    fix b s_a s_b
    assume hit: "map_of (blobs s) ?sha = Some b"
      and ref: "blob_ref ?sha s = Inr s_a"
      and add: "add_blob_to_peer sender ?sha s_a = Inr (h, s_b)"
      and un: "blob_unref ?sha s_b = Inr s1"
    note r = blob_ref_frame [OF ref]
    have lp: "fst (lookup_peer sender s_a) = fst (lookup_peer sender s)"
      by (simp add: lookup_peer_def r Let_def split: option.splits)
    note a = add_blob_to_peer_frame [OF add]
    note u = blob_unref_frame [OF un]
    have "fst ` set (blobs s1) \<subseteq> fst ` set (blobs s_b)" by (rule u(2))
    also have "\<dots> \<subseteq> fst ` set (blobs s_a)" by (rule a(2))
    also have "\<dots> = fst ` set (blobs s)" by (rule r(2))
    finally have k: "fst ` set (blobs s1) \<subseteq> fst ` set (blobs s)" .
    then have k': "fst ` set (blobs s1) \<subseteq> insert ?sha (fst ` set (blobs s))" by blast
    have "map_of (peers s1) = (map_of (peers s))(sender \<mapsto> ?P)"
      unfolding u(1) a(3) lp r(1) ..
    with k k' a(1) show ?thesis by (simp add: lp)
  qed
  then show "h = next_blob_id (fst (lookup_peer sender s))"
    and "fst ` set (blobs s1) \<subseteq> insert ?sha (fst ` set (blobs s))"
    and "map_of (blobs s) ?sha \<noteq> None \<Longrightarrow> fst ` set (blobs s1) \<subseteq> fst ` set (blobs s)"
    and "map_of (peers s1) = (map_of (peers s))(sender \<mapsto> ?P)"
    by simp_all
qed

lemma entry_in_ptrs:
  assumes wf: "wf_peers s" and peer: "map_of (peers s) n = Some peer"
    and ent: "map_of (peer_blobs peer) h = Some p"
  shows "p \<in># ptrs s"
proof -
  from ent have "(h, p) \<in> set (peer_blobs peer)" by (rule map_of_SomeD)
  then have "p \<in> snd ` set (peer_blobs peer)" by (rule rev_image_eqI) simp
  then have "p \<in># vals peer" by (simp add: vals_def)
  with ptrs_split [OF wf peer] show ?thesis by simp
qed

lemma entry_in_handle_entries:
  assumes wf: "wf_peers s" and peer: "map_of (peers s) n = Some peer"
    and ent: "map_of (peer_blobs peer) h = Some p"
  shows "(n, h, p) \<in> set (handle_entries s)"
  using handle_entries_iff [OF wf_peers_distinct [OF wf], of n h p] peer map_of_SomeD [OF ent]
  by blast

lemma filter_key_length:
  assumes "distinct (map fst xs)" and "map_of xs k = Some v"
  shows "length (filter (\<lambda>(k', b). k' = k) xs) = 1"
  using assms
proof (induction xs)
  case Nil
  then show ?case by simp
next
  case (Cons x xs)
  obtain k' v' where x: "x = (k', v')" by (cases x)
  show ?case
  proof (cases "k' = k")
    case True
    with Cons.prems x have "k \<notin> fst ` set xs" by simp
    then have "filter (\<lambda>(k', b). k' = k) xs = []"
      by (auto simp: filter_empty_conv image_iff)
    with True x show ?thesis by simp
  next
    case False
    with Cons x show ?thesis by simp
  qed
qed

subsection \<open>Exact results of single steps\<close>

lemma blob_ref_exact:
  assumes "blob_ref p s = Inr s'" and "map_of (blobs s) p = Some b"
  shows "s' = s\<lparr>blobs := AList.update p (b\<lparr>ref_count := ref_count b + 1\<rparr>) (blobs s)\<rparr>"
  using assms by (simp add: blob_ref_def split: if_splits)

lemma blob_unref_exact:
  assumes "blob_unref p s = Inr s'" and "map_of (blobs s) p = Some b"
  shows "s' = (if ref_count b = 1
               then s\<lparr>real_blob_size := real_blob_size s - len b,
                       blobs := AList.delete p (AList.delete (sha256 b) (blobs s))\<rparr>
               else s\<lparr>blobs := AList.update p (b\<lparr>ref_count := ref_count b - 1\<rparr>) (blobs s)\<rparr>)"
  using assms by (auto simp: blob_unref_def split: if_splits)

lemma add_blob_to_peer_exact:
  assumes fresh: "map_of (peer_blobs (fst (lookup_peer sender s)))
                    (next_blob_id (fst (lookup_peer sender s))) = None"
    and b: "map_of (blobs s) p = Some b"
    and add: "add_blob_to_peer sender p s = Inr (h, s')"
  shows "s' = s\<lparr>apparent_blob_size := apparent_blob_size s + len b,
                 blobs := AList.update p (b\<lparr>ref_count := ref_count b + 1\<rparr>) (blobs s),
                 peers := AList.update sender
                   ((fst (lookup_peer sender s))
                      \<lparr>next_blob_id := next_blob_id (fst (lookup_peer sender s)) + 1,
                       peer_blobs := AList.update (next_blob_id (fst (lookup_peer sender s))) p
                                       (peer_blobs (fst (lookup_peer sender s)))\<rparr>)
                   (peers s)\<rparr>"
proof (cases "map_of (peers s) sender")
  case None
  then have lk: "lookup_peer sender s
      = (\<lparr>name = sender, next_blob_id = 1, peer_blobs = []\<rparr>,
         s\<lparr>peers := AList.update sender \<lparr>name = sender, next_blob_id = 1, peer_blobs = []\<rparr> (peers s)\<rparr>)"
    by (simp add: lookup_peer_def Let_def)
  from add b show ?thesis
    unfolding add_blob_to_peer_def lk
    by (auto simp: Let_def blob_ref_def and_then_eq_Inr split: if_splits)
next
  case (Some peer)
  then have lk: "lookup_peer sender s = (peer, s)"
    by (simp add: lookup_peer_def)
  from add b fresh show ?thesis
    unfolding add_blob_to_peer_def lk
    by (auto simp: Let_def blob_ref_def and_then_eq_Inr split: if_splits)
qed

lemma forget_known_handle:
  assumes "map_of (peers s) sender = Some peer" and "map_of (peer_blobs peer) h = Some q"
    and "map_of (blobs s) q = Some b" and "INT_MIN < ref_count b"
    and "parameters msg = Tuple_u h"
  shows "forget sender msg s =
           Inr (Return_unit,
                if ref_count b = 1
                then s\<lparr>peers := AList.update sender
                                  (peer\<lparr>peer_blobs := AList.delete h (peer_blobs peer)\<rparr>) (peers s),
                        apparent_blob_size := apparent_blob_size s - len b,
                        real_blob_size := real_blob_size s - len b,
                        blobs := AList.delete q (AList.delete (sha256 b) (blobs s))\<rparr>
                else s\<lparr>peers := AList.update sender
                                  (peer\<lparr>peer_blobs := AList.delete h (peer_blobs peer)\<rparr>) (peers s),
                        apparent_blob_size := apparent_blob_size s - len b,
                        blobs := AList.update q (b\<lparr>ref_count := ref_count b - 1\<rparr>) (blobs s)\<rparr>)"
  using assms
  by (simp add: forget_def remove_blob_from_peer_def lookup_peer_def
      removed_blob_from_peer_cb_def blob_unref_def)

subsection \<open>The order of release\<close>

text \<open>The order in which the entries of a dying peer are released does not matter.\<close>

lemma destroy_values_order:
  assumes "binv (M + mset qs) (A + mset qs) s" and "A \<subseteq># M" and "mset qs' = mset qs"
    and "destroy_values qs s = Inr s1" and "destroy_values qs' s = Inr s2"
  shows "map_of (blobs s2) = map_of (blobs s1)"
    and "apparent_blob_size s2 = apparent_blob_size s1"
proof -
  from assms(1,3) have inv': "binv (M + mset qs') (A + mset qs') s" by simp
  have cnt: "count_list qs' k = count_list qs k" for k
    using assms(3) by (metis count_mset)
  have sm: "(\<Sum>q\<leftarrow>qs'. blen s q) = (\<Sum>q\<leftarrow>qs. blen s q)"
    using assms(3) by (metis mset_map sum_mset_sum_list)
  from destroy_values_exact [OF assms(1,2)] assms(4)
  have a: "apparent_blob_size s1 = apparent_blob_size s - (\<Sum>q\<leftarrow>qs. blen s q)"
    and m: "\<forall>k. map_of (blobs s1) k =
                 (case map_of (blobs s) k of
                    None \<Rightarrow> None
                  | Some b \<Rightarrow>
                      if ref_count b = int (count_list qs k) then None
                      else Some (b\<lparr>ref_count := ref_count b - int (count_list qs k)\<rparr>))"
    by auto
  from destroy_values_exact [OF inv' assms(2)] assms(5)
  have a': "apparent_blob_size s2 = apparent_blob_size s - (\<Sum>q\<leftarrow>qs'. blen s q)"
    and m': "\<forall>k. map_of (blobs s2) k =
                 (case map_of (blobs s) k of
                    None \<Rightarrow> None
                  | Some b \<Rightarrow>
                      if ref_count b = int (count_list qs' k) then None
                      else Some (b\<lparr>ref_count := ref_count b - int (count_list qs' k)\<rparr>))"
    by auto
  from a a' sm show "apparent_blob_size s2 = apparent_blob_size s1" by simp
  from m m' show "map_of (blobs s2) = map_of (blobs s1)"
    by (auto simp: fun_eq_iff cnt split: option.splits)
qed

lemma make_unique_tail_not_invalid_args:
  assumes "and_then (add_blob_to_peer sender p s) (\<lambda>(blob_id, s2).
             and_then (blob_unref p s2) (\<lambda>s3. Inr (Return_ahu ah blob_id rf, s3))) = Inr (r, s')"
  shows "\<exists>h. r = Return_ahu ah h rf"
  using assms by (auto simp: and_then_eq_Inr)

section \<open>The client\<close>

lemma mapped_data_unref_last:
  assumes "md_ref_count d = 1"
  shows "mapped_data_unref I d =
           (None, Munmap (md_data d) (md_len d)
                    # (if md_id d \<noteq> 0 \<and> bus_available I then [Call_forget (md_id d)] else []))"
  using assms by (simp add: mapped_data_unref_def call_forget_def Let_def)

lemma mapped_data_unref_shared:
  assumes "md_ref_count d \<noteq> 1"
  shows "mapped_data_unref I d = (Some (d\<lparr>md_ref_count := md_ref_count d - 1\<rparr>), [])"
  using assms by (simp add: mapped_data_unref_def Let_def)

subsection \<open>Runs are defined\<close>

text \<open>
  Every handler changes the number of entries of the peer tables by at most one, and a
  reference count never exceeds that number plus the references the running handler
  holds. So a run of fewer than \<open>INT_MAX\<close> events, none of which indexes the
  descriptor list with a negative number, never reaches undefined behaviour: the
  statements about reachable states are about all such runs.
\<close>

lemma mset_eq_of_map_of_eq:
  assumes "distinct (map fst xs)" and "distinct (map fst ys)" and "map_of xs = map_of ys"
  shows "mset xs = mset ys"
proof -
  from assms have "set xs = set ys" by (simp add: map_of_inject_set)
  moreover from assms(1,2) have "distinct xs" "distinct ys" by (simp_all add: distinct_map)
  ultimately show ?thesis by (simp add: set_eq_iff_mset_eq_distinct)
qed

lemma tbl_ptrs_cong:
  assumes "distinct (map fst xs)" and "distinct (map fst ys)" and "map_of xs = map_of ys"
  shows "tbl_ptrs xs = tbl_ptrs ys"
  unfolding tbl_ptrs_def using mset_eq_of_map_of_eq [OF assms] by simp

lemma ptrs_after_update:
  assumes wf: "wf_peers s" and wf': "wf_peers s'"
    and mp: "map_of (peers s') = (map_of (peers s))(n \<mapsto> peer')"
  shows "ptrs s' = tbl_ptrs (AList.delete n (peers s)) + vals peer'"
proof -
  from mp have "map_of (peers s') n = Some peer'" by simp
  from ptrs_split [OF wf' this]
  have "ptrs s' = tbl_ptrs (AList.delete n (peers s')) + vals peer'" .
  moreover have "tbl_ptrs (AList.delete n (peers s')) = tbl_ptrs (AList.delete n (peers s))"
  proof (rule tbl_ptrs_cong)
    show "distinct (map fst (AList.delete n (peers s')))"
      using wf_peers_distinct [OF wf'] by (rule distinct_delete)
    show "distinct (map fst (AList.delete n (peers s)))"
      using wf_peers_distinct [OF wf] by (rule distinct_delete)
    show "map_of (AList.delete n (peers s')) = map_of (AList.delete n (peers s))"
      by (simp add: delete_conv' mp)
  qed
  ultimately show ?thesis by simp
qed

lemma ptrs_before_update:
  assumes wf: "wf_peers s"
  shows "ptrs s = tbl_ptrs (AList.delete n (peers s)) + vals (fst (lookup_peer n s))"
proof (cases "map_of (peers s) n")
  case None
  then have "fst (lookup_peer n s) = \<lparr>name = n, next_blob_id = 1, peer_blobs = []\<rparr>"
    by (simp add: lookup_peer_def Let_def)
  with None show ?thesis by (simp add: vals_def delete_absent ptrs_def)
next
  case (Some peer)
  then have "fst (lookup_peer n s) = peer" by (simp add: lookup_peer_def)
  with ptrs_split [OF wf Some] show ?thesis by simp
qed

lemma length_update_le: "length (AList.update k v xs) \<le> Suc (length xs)"
  by (induction xs) auto

lemma make_unique_size:
  assumes inv: "dinv {#} s" and mu: "make_unique E sender msg s = Inr (r, s')"
  shows "size (ptrs s') \<le> Suc (size (ptrs s))"
proof (cases "\<exists>ah h rf. r = Return_ahu ah h rf")
  case True
  then obtain ah h rf where r: "r = Return_ahu ah h rf" by blast
  from make_unique_success_msg [OF mu [unfolded r]] obtain i fds where
    msg: "parameters msg = Tuple_h i" "unix_fd_list msg = Some fds" by blast
  let ?peer = "fst (lookup_peer sender s)"
  let ?sha = "sha256_hex E (file_data E (fds ! nat i))"
  let ?P = "?peer\<lparr>next_blob_id := h + 1, peer_blobs := AList.update h ?sha (peer_blobs ?peer)\<rparr>"
  note fr = make_unique_frame [OF mu [unfolded r] msg]
  from inv have wf: "wf_peers s" by (simp add: dinv_def)
  from make_unique_dinv [OF inv mu] have wf': "wf_peers s'" by (simp add: dinv_def)
  from ptrs_after_update [OF wf wf' fr(4)]
  have "size (ptrs s') = size (tbl_ptrs (AList.delete sender (peers s))) + size (vals ?P)"
    by simp
  moreover from ptrs_before_update [OF wf, of sender]
  have "size (ptrs s) = size (tbl_ptrs (AList.delete sender (peers s))) + size (vals ?peer)"
    by simp
  moreover have "size (vals ?P) \<le> Suc (size (vals ?peer))"
    using length_update_le [of h ?sha "peer_blobs ?peer"] by (simp add: vals_def)
  ultimately show ?thesis by linarith
next
  case False
  have "peers s' = peers s"
  proof (cases "parameters msg")
    case (Tuple_h handle)
    from mu Tuple_h obtain fd0 where st: "steal_one_fd_from_list (unix_fd_list msg) handle = Inr fd0"
      by (auto simp: make_unique_def and_then_eq_Inr)
    show ?thesis
    proof (cases "fd0 = - 1 \<or> fcntl_get_seals E fd0 = - 1
                 \<or> fcntl_get_seals E fd0 AND ALL_SEALS \<noteq> ALL_SEALS
                 \<or> checksum_from_fd E fd0 [] 0 = None")
      case True
      with mu Tuple_h st have "s' = s"
        by (auto simp: make_unique_def Let_def split: if_splits)
      then show ?thesis by simp
    next
      case ok: False
      then obtain checksum where ck: "checksum_from_fd E fd0 [] 0 = Some checksum" by auto
      define sha where "sha = sha256_hex E checksum"
      have mu_eq: "make_unique E sender msg s = and_then (lookup_blob sha s) (\<lambda>(blob, s1).
        case blob of
          None \<Rightarrow>
            let (p, s2) = blob_new E fd0 sha s1
            in and_then (add_blob_to_peer sender p s2) (\<lambda>(blob_id, s3).
               and_then (blob_unref p s3) (\<lambda>s4. Inr (Return_ahu [] blob_id [], s4)))
        | Some p \<Rightarrow>
            (case map_of (blobs s1) p of
               None \<Rightarrow> Inl Use_after_free
             | Some b \<Rightarrow>
                 if fd_list_append_fails E
                 then and_then (blob_unref p s1) (\<lambda>s2.
                        Inr (Return_error G_DBUS_ERROR_FAILED ''Failed to dup fd'', s2))
                 else
                   and_then (add_blob_to_peer sender p s1) (\<lambda>(blob_id, s2).
                   and_then (blob_unref p s2) (\<lambda>s3.
                     Inr (Return_ahu [0] blob_id [fd b], s3)))))"
        unfolding sha_def using Tuple_h st ok ck by (simp add: make_unique_def Let_def)
      from mu obtain blob s1 where lk: "lookup_blob sha s = Inr (blob, s1)"
        and rest: "(case blob of
          None \<Rightarrow>
            let (p, s2) = blob_new E fd0 sha s1
            in and_then (add_blob_to_peer sender p s2) (\<lambda>(blob_id, s3).
               and_then (blob_unref p s3) (\<lambda>s4. Inr (Return_ahu [] blob_id [], s4)))
        | Some p \<Rightarrow>
            (case map_of (blobs s1) p of
               None \<Rightarrow> Inl Use_after_free
             | Some b \<Rightarrow>
                 if fd_list_append_fails E
                 then and_then (blob_unref p s1) (\<lambda>s2.
                        Inr (Return_error G_DBUS_ERROR_FAILED ''Failed to dup fd'', s2))
                 else
                   and_then (add_blob_to_peer sender p s1) (\<lambda>(blob_id, s2).
                   and_then (blob_unref p s2) (\<lambda>s3.
                     Inr (Return_ahu [0] blob_id [fd b], s3))))) = Inr (r, s')"
        unfolding mu_eq and_then_eq_Inr by (auto simp del: split_paired_Ex)
      show ?thesis
      proof (cases blob)
        case None
        obtain p s2 where bn: "blob_new E fd0 sha s1 = (p, s2)" by (cases "blob_new E fd0 sha s1")
        from rest None bn make_unique_tail_not_invalid_args [of sender p s2 "[]" "[]" r s'] False
        show ?thesis by auto
      next
        case (Some p)
        with rest obtain b where b: "map_of (blobs s1) p = Some b"
          by (auto split: option.splits)
        from lk Some have ref: "blob_ref p s = Inr s1"
          by (auto simp: lookup_blob_def and_then_eq_Inr split: option.splits)
        show ?thesis
        proof (cases "fd_list_append_fails E")
          case True
          with rest Some b obtain s2 where "blob_unref p s1 = Inr s2" "s' = s2"
            by (auto simp: and_then_eq_Inr)
          with blob_unref_frame(1) [of p s1 s2] blob_ref_frame(1) [OF ref] show ?thesis by simp
        next
          case nf: False
          with rest Some b make_unique_tail_not_invalid_args [of sender p s1 "[0]" "[fd b]" r s'] False
          show ?thesis by auto
        qed
      qed
    qed
  next
    case (Tuple_u x)
    with mu show ?thesis by (auto simp: make_unique_def)
  next
    case Other_type
    with mu show ?thesis by (auto simp: make_unique_def)
  qed
  then show ?thesis by (simp add: ptrs_def)
qed

lemma remove_blob_from_peer_frame:
  assumes "remove_blob_from_peer sender h s = Inr s'"
  shows "map_of (peers s') = (map_of (peers s))
           (sender \<mapsto> (fst (lookup_peer sender s))
              \<lparr>peer_blobs := AList.delete h (peer_blobs (fst (lookup_peer sender s)))\<rparr>)"
proof -
  obtain peer s1 where lk: "lookup_peer sender s = (peer, s1)" by (cases "lookup_peer sender s")
  have m1: "map_of (peers s1) = (map_of (peers s))(sender \<mapsto> peer)"
    using lookup_peer_map [of sender s] lk by simp
  show ?thesis
  proof (cases "map_of (peer_blobs peer) h")
    case None
    with assms lk have "s' = s1" by (simp add: remove_blob_from_peer_def)
    with m1 lk show ?thesis by (simp add: delete_absent [OF None])
  next
    case (Some q)
    with assms lk have "removed_blob_from_peer_cb q
        (s1\<lparr>peers := AList.update sender (peer\<lparr>peer_blobs := AList.delete h (peer_blobs peer)\<rparr>)
                         (peers s1)\<rparr>) = Inr s'"
      by (simp add: remove_blob_from_peer_def)
    from cb_frame(1) [OF this] m1 lk show ?thesis by (simp add: update_conv')
  qed
qed

lemma forget_size:
  assumes inv: "dinv {#} s" and fg: "forget sender msg s = Inr (r, s')"
  shows "size (ptrs s') \<le> size (ptrs s)"
proof (cases "parameters msg")
  case (Tuple_u h)
  with fg have rm: "remove_blob_from_peer sender h s = Inr s'"
    by (auto simp: forget_def and_then_eq_Inr)
  let ?peer = "fst (lookup_peer sender s)"
  let ?P = "?peer\<lparr>peer_blobs := AList.delete h (peer_blobs ?peer)\<rparr>"
  from inv have wf: "wf_peers s" by (simp add: dinv_def)
  from remove_blob_from_peer_dinv [OF inv, of sender h] rm have wf': "wf_peers s'"
    by (auto simp: dinv_def)
  from ptrs_after_update [OF wf wf' remove_blob_from_peer_frame [OF rm]]
  have "size (ptrs s') = size (tbl_ptrs (AList.delete sender (peers s))) + size (vals ?P)"
    by simp
  moreover from ptrs_before_update [OF wf, of sender]
  have "size (ptrs s) = size (tbl_ptrs (AList.delete sender (peers s))) + size (vals ?peer)"
    by simp
  moreover have "size (vals ?P) \<le> size (vals ?peer)"
    using length_delete_le [of h "peer_blobs ?peer"] by (simp add: vals_def)
  ultimately show ?thesis by linarith
next
  case (Tuple_h x)
  with fg show ?thesis by (auto simp: forget_def)
next
  case Other_type
  with fg show ?thesis by (auto simp: forget_def)
qed

lemma destroy_values_peers:
  "destroy_values qs s = Inr s' \<Longrightarrow> peers s' = peers s"
proof (induction qs arbitrary: s)
  case Nil
  then show ?case by simp
next
  case (Cons q qs)
  from Cons.prems obtain s1 where "removed_blob_from_peer_cb q s = Inr s1"
    "destroy_values qs s1 = Inr s'"
    by (auto simp: and_then_eq_Inr)
  with Cons.IH [of s1] cb_frame(1) [of q s s1] show ?case by simp
qed

lemma name_owner_changed_size:
  assumes inv: "dinv {#} s" and noc: "name_owner_changed nm old_owner new_owner s = Inr s'"
  shows "size (ptrs s') \<le> size (ptrs s)"
proof -
  from inv have wf: "wf_peers s" by (simp add: dinv_def)
  have "peers s' = peers s \<or> (\<exists>peer. map_of (peers s) nm = Some peer
            \<and> peers s' = AList.delete nm (peers s))"
    using noc destroy_values_peers
    by (fastforce simp: name_owner_changed_def peer_free_def split: if_splits option.splits)
  then show ?thesis
  proof
    assume "peers s' = peers s"
    then show ?thesis by (simp add: ptrs_def)
  next
    assume "\<exists>peer. map_of (peers s) nm = Some peer \<and> peers s' = AList.delete nm (peers s)"
    then obtain peer where p: "map_of (peers s) nm = Some peer"
      and s': "peers s' = AList.delete nm (peers s)" by blast
    from ptrs_split [OF wf p] s' show ?thesis by (simp add: ptrs_def)
  qed
qed

lemma handle_event_size:
  assumes inv: "dinv {#} s" and ev: "handle_event e s = Inr s'"
  shows "size (ptrs s') \<le> Suc (size (ptrs s))"
proof (cases e)
  case (Method_call E sender interface_name method_name msg)
  with ev obtain r where mc: "method_call E sender interface_name method_name msg s = Inr (r, s')"
    by (auto simp: and_then_eq_Inr)
  consider "method_name = ''MakeUnique''" | "method_name \<noteq> ''MakeUnique''" "method_name = ''Forget''"
    | "method_name \<noteq> ''MakeUnique''" "method_name \<noteq> ''Forget''" by blast
  then show ?thesis
  proof cases
    case 1
    with mc have "make_unique E sender msg s = Inr (r, s')" by (simp add: method_call_def)
    from make_unique_size [OF inv this] show ?thesis .
  next
    case 2
    with mc have "forget sender msg s = Inr (r, s')" by (simp add: method_call_def)
    from forget_size [OF inv this] show ?thesis by simp
  next
    case 3
    with mc have "s' = s" by (simp add: method_call_def)
    then show ?thesis by simp
  qed
next
  case (Name_owner_changed nm old_owner new_owner)
  with ev name_owner_changed_size [OF inv, of nm old_owner new_owner s'] show ?thesis by simp
qed

lemma ref_count_le_size:
  assumes inv: "dinv H s" and b: "map_of (blobs s) k = Some b"
  shows "ref_count b \<le> int (size (ptrs s)) + int (size H)"
proof -
  from inv have "binv (ptrs s + H) (ptrs s) s" by (simp add: dinv_def)
  from binv_blob [OF this b] have "ref_count b = int (count (ptrs s + H) k)" by simp
  also have "\<dots> \<le> int (size (ptrs s + H))" using count_le_size [of "ptrs s + H" k] by linarith
  finally show ?thesis by simp
qed

lemma add_then_unref_defined:
  assumes inv: "dinv {#p#} s" and bound: "size (ptrs s) \<le> 2147483645"
  shows "\<exists>r s'. and_then (add_blob_to_peer sender p s) (\<lambda>(blob_id, s2).
                and_then (blob_unref p s2) (\<lambda>s3. Inr (f blob_id, s3))) = Inr (r, s')"
proof -
  from inv have "binv (ptrs s + {#p#}) (ptrs s) s" by (simp add: dinv_def)
  from binv_live [OF this, of p] obtain b where b: "map_of (blobs s) p = Some b" by auto
  from ref_count_le_size [OF inv b] bound have "ref_count b < INT_MAX" by (simp add: INT_MAX_def)
  from add_blob_to_peer_total [OF inv b this, of sender] obtain blob_id s2 where
    a: "add_blob_to_peer sender p s = Inr (blob_id, s2)" and i2: "dinv {#p#} s2" by blast
  from blob_unref_dinv [OF i2] obtain s3 where "blob_unref p s2 = Inr s3" by blast
  with a show ?thesis by simp
qed

lemma make_unique_defined:
  assumes inv: "dinv {#} s" and bound: "size (ptrs s) \<le> 2147483645"
    and idx: "case parameters msg of Tuple_h handle \<Rightarrow> unix_fd_list msg = None \<or> 0 \<le> handle
              | _ \<Rightarrow> True"
  shows "\<exists>r s'. make_unique E sender msg s = Inr (r, s')"
proof (cases "parameters msg")
  case (Tuple_h handle)
  with idx have "unix_fd_list msg = None \<or> 0 \<le> handle" by simp
  then have "\<exists>fd0. steal_one_fd_from_list (unix_fd_list msg) handle = Inr fd0"
    by (cases "unix_fd_list msg") (auto simp: steal_one_fd_from_list_def)
  then obtain fd0 where st: "steal_one_fd_from_list (unix_fd_list msg) handle = Inr fd0" ..
  show ?thesis
  proof (cases "fd0 = - 1 \<or> fcntl_get_seals E fd0 = - 1
               \<or> fcntl_get_seals E fd0 AND ALL_SEALS \<noteq> ALL_SEALS
               \<or> checksum_from_fd E fd0 [] 0 = None")
    case True
    with Tuple_h st show ?thesis
      by (auto simp: make_unique_def Let_def split: if_splits)
  next
    case ok: False
    then obtain checksum where ck: "checksum_from_fd E fd0 [] 0 = Some checksum" by auto
    define sha where "sha = sha256_hex E checksum"
    have mu_eq: "make_unique E sender msg s = and_then (lookup_blob sha s) (\<lambda>(blob, s1).
      case blob of
        None \<Rightarrow>
          let (p, s2) = blob_new E fd0 sha s1
          in and_then (add_blob_to_peer sender p s2) (\<lambda>(blob_id, s3).
             and_then (blob_unref p s3) (\<lambda>s4. Inr (Return_ahu [] blob_id [], s4)))
      | Some p \<Rightarrow>
          (case map_of (blobs s1) p of
             None \<Rightarrow> Inl Use_after_free
           | Some b \<Rightarrow>
               if fd_list_append_fails E
               then and_then (blob_unref p s1) (\<lambda>s2.
                      Inr (Return_error G_DBUS_ERROR_FAILED ''Failed to dup fd'', s2))
               else
                 and_then (add_blob_to_peer sender p s1) (\<lambda>(blob_id, s2).
                 and_then (blob_unref p s2) (\<lambda>s3.
                   Inr (Return_ahu [0] blob_id [fd b], s3)))))"
      unfolding sha_def using Tuple_h st ok ck by (simp add: make_unique_def Let_def)
    show ?thesis
    proof (cases "map_of (blobs s) sha")
      case None
      then have lk: "lookup_blob sha s = Inr (None, s)" by (simp add: lookup_blob_def)
      obtain p s2 where bn: "blob_new E fd0 sha s = (p, s2)" by (cases "blob_new E fd0 sha s")
      from blob_new_dinv [OF inv None bn] have p: "p = sha" and i2: "dinv {#sha#} s2" by simp_all
      from blob_new_frame(1) [of E fd0 sha s] bn have "peers s2 = peers s" by simp
      with bound have b2: "size (ptrs s2) \<le> 2147483645" by (simp add: ptrs_def)
      from add_then_unref_defined [OF i2 b2, of sender "\<lambda>blob_id. Return_ahu [] blob_id []"]
      show ?thesis unfolding mu_eq lk by (simp add: bn p)
    next
      case (Some b)
      from ref_count_le_size [OF inv Some] bound have "ref_count b < INT_MAX"
        by (simp add: INT_MAX_def)
      with Some obtain s1 where ref: "blob_ref sha s = Inr s1" by (simp add: blob_ref_def)
      with Some have lk: "lookup_blob sha s = Inr (Some sha, s1)" by (simp add: lookup_blob_def)
      from lookup_blob_dinv [OF inv lk] have i1: "dinv {#sha#} s1" by simp
      then have "binv (ptrs s1 + {#sha#}) (ptrs s1) s1" by (simp add: dinv_def)
      from binv_live [OF this, of sha] obtain b1 where b1: "map_of (blobs s1) sha = Some b1" by auto
      from blob_ref_frame(1) [OF ref] bound have b2: "size (ptrs s1) \<le> 2147483645"
        by (simp add: ptrs_def)
      show ?thesis
      proof (cases "fd_list_append_fails E")
        case True
        from blob_unref_dinv [OF i1] obtain s2 where "blob_unref sha s1 = Inr s2" by blast
        with True b1 show ?thesis unfolding mu_eq lk by simp
      next
        case False
        from add_then_unref_defined [OF i1 b2, of sender "\<lambda>blob_id. Return_ahu [0] blob_id [fd b1]"]
        show ?thesis unfolding mu_eq lk using False b1 by simp
      qed
    qed
  qed
next
  case (Tuple_u x)
  then show ?thesis by (simp add: make_unique_def)
next
  case Other_type
  then show ?thesis by (simp add: make_unique_def)
qed

lemma handle_event_defined:
  assumes inv: "dinv {#} s" and bound: "size (ptrs s) \<le> 2147483645"
    and ok: "handle_in_bounds e"
  shows "\<exists>s'. handle_event e s = Inr s'"
proof (cases e)
  case (Method_call E sender interface_name method_name msg)
  consider "method_name = ''MakeUnique''" | "method_name \<noteq> ''MakeUnique''" "method_name = ''Forget''"
    | "method_name \<noteq> ''MakeUnique''" "method_name \<noteq> ''Forget''" by blast
  then show ?thesis
  proof cases
    case 1
    with ok Method_call have "case parameters msg of
        Tuple_h handle \<Rightarrow> unix_fd_list msg = None \<or> 0 \<le> handle | _ \<Rightarrow> True" by simp
    from make_unique_defined [OF inv bound this, of E sender] 1 Method_call show ?thesis
      by (auto simp: method_call_def)
  next
    case 2
    with forget_dinv [OF inv, of sender msg] Method_call show ?thesis
      by (auto simp: method_call_def)
  next
    case 3
    with Method_call show ?thesis by (simp add: method_call_def)
  qed
next
  case (Name_owner_changed nm old_owner new_owner)
  with name_owner_changed_dinv [OF inv, of nm old_owner new_owner] show ?thesis by auto
qed

lemma run_defined_from:
  assumes "dinv {#} s" and "size (ptrs s) + length evs \<le> 2147483646"
    and "list_all handle_in_bounds evs"
  shows "\<exists>s'. run evs s = Inr s'"
  using assms
proof (induction evs arbitrary: s)
  case Nil
  then show ?case by simp
next
  case (Cons e es)
  from Cons.prems have b: "size (ptrs s) \<le> 2147483645" and ok: "handle_in_bounds e" by simp_all
  from handle_event_defined [OF Cons.prems(1) b ok] obtain s1 where
    ev: "handle_event e s = Inr s1" by blast
  from handle_event_dinv [OF Cons.prems(1) ev] have i1: "dinv {#} s1" .
  from handle_event_size [OF Cons.prems(1) ev] Cons.prems(2)
  have b1: "size (ptrs s1) + length es \<le> 2147483646" by simp
  from Cons.prems(3) have "list_all handle_in_bounds es" by simp
  from Cons.IH [OF i1 b1 this] ev show ?case by simp
qed

lemma run_defined:
  assumes "list_all handle_in_bounds evs" and "length evs \<le> 2147483646"
  shows "\<exists>s. run evs daemon_init = Inr s"
proof -
  have "size (ptrs daemon_init) = 0" by (simp add: ptrs_def tbl_ptrs_def daemon_init_def)
  with run_defined_from [OF dinv_init _ assms(1)] assms(2) show ?thesis by simp
qed

section \<open>The properties of the specification\<close>

subsection \<open>C1: the return value of the synchronous submission helper\<close>

lemma call_make_unique_never_true:
  "call_make_unique I memfd id_out = Inr (ok, rest) \<Longrightarrow> \<not> ok"
  by (auto simp: call_make_unique_def split: if_splits option.splits list.splits sum.splits)

lemma g_bytes_new_unique_sync_copies:
  "g_bytes_new_unique_sync I data0 len0 = Inr (bytes, effs) \<Longrightarrow> bytes = Heap_copy data0"
  by (auto simp: g_bytes_new_unique_sync_def Let_def
      split: if_splits sum.splits prod.splits dest: call_make_unique_never_true)

text \<open>
  C1. The specification asks that \<open>call_make_unique\<close> return true whenever the
  \<open>MakeUnique\<close> call succeeds, so that \<open>g_bytes_new_unique_sync\<close> maps the descriptor.
  The code does not: on the reply of the example (the call succeeded, the canonical
  descriptor 7 replaced the submitted descriptor 5 and the handle 1 was stored) the helper
  returns \<open>FALSE\<close>, and the caller closes the descriptor and falls back to a heap copy.
\<close>

theorem call_make_unique_returns_false:
  "call_make_unique example_ipc 5 0 = Inr (False, 7, 1, [Close 5])
   \<and> g_bytes_new_unique_sync example_ipc [72, 105] 2
       = Inr (Heap_copy [72, 105], [Close 5, Close 7])"
  by (simp add: call_make_unique_def g_bytes_new_unique_sync_def example_ipc_def
      steal_one_fd_from_list_def Let_def)

subsection \<open>C2: reference counts\<close>

text \<open>
  C2. After any sequence of method calls and \<open>NameOwnerChanged\<close> signals, started from
  the initial state, the reference count of every blob in the store equals the number of
  handle entries, over all peers, that point at it.
\<close>

theorem refcount_equals_handle_entries:
  assumes "run evs daemon_init = Inr s"
  shows "\<forall>(k, b) \<in> set (blobs s). ref_count b = int (refs_to s k)"
proof -
  from reachable_dinv [OF assms] have bi: "binv (ptrs s) (ptrs s) s"
    by (simp add: dinv_def)
  show ?thesis
  proof (clarify)
    fix k b assume "(k, b) \<in> set (blobs s)"
    with binv_distinct [OF bi] have "map_of (blobs s) k = Some b" by simp
    from binv_blob [OF bi this] show "ref_count b = int (refs_to s k)"
      by (simp add: refs_to_count)
  qed
qed

text \<open>Two peers hold the one blob of the example: its reference count is 2.\<close>

theorem refcount_equals_handle_entries_witness:
  "run [submit '':1.1'', submit '':1.2''] daemon_init = Inr example_state2
   \<and> (example_digest [72, 105], example_blob 2) \<in> set (blobs example_state2)
   \<and> ref_count (example_blob 2) = int (refs_to example_state2 (example_digest [72, 105]))
   \<and> refs_to example_state2 (example_digest [72, 105]) = 2"
proof -
  have mem: "(example_digest [72, 105], example_blob 2) \<in> set (blobs example_state2)"
    by (simp add: example_state2_def)
  from refcount_equals_handle_entries [OF example_run2] mem
  have "ref_count (example_blob 2) = int (refs_to example_state2 (example_digest [72, 105]))"
    by blast
  moreover have "refs_to example_state2 (example_digest [72, 105]) = 2"
    by (simp add: refs_to_def handle_entries_def example_state2_def example_peer_def)
  ultimately show ?thesis using example_run2 mem by blast
qed

subsection \<open>C3: MakeUnique followed by Forget\<close>

text \<open>
  C3, as amended. In a state the daemon can reach, let a \<open>MakeUnique\<close> succeed and let
  the sender then \<open>Forget\<close> the handle it was given. Provided the handle was not
  already in use in the sender's table (it cannot be before the 32-bit counter has
  wrapped around), the \<open>Forget\<close> succeeds and the daemon is back in the state before
  the submission, but for the sender's record in the peer table: the record exists and its
  handle counter has advanced by one. The blob store and both size counters are as they
  were, whether the content was new or already held.
\<close>

theorem make_unique_then_forget:
  assumes reach: "run evs daemon_init = Inr s"
    and mu: "make_unique E sender msg s = Inr (Return_ahu ah h rf, s1)"
    and fresh: "map_of (peer_blobs (fst (lookup_peer sender s)))
                  (next_blob_id (fst (lookup_peer sender s))) = None"
    and fg: "parameters msg' = Tuple_u h"
  shows "forget sender msg' s1 =
           Inr (Return_unit,
                s\<lparr>peers := AList.update sender
                              ((fst (lookup_peer sender s))
                                 \<lparr>next_blob_id := next_blob_id (fst (lookup_peer sender s)) + 1\<rparr>)
                              (peers s)\<rparr>)"
proof -
  let ?peer = "fst (lookup_peer sender s)"
  from make_unique_success_msg [OF mu] obtain i fds where msg: "parameters msg = Tuple_h i"
    "unix_fd_list msg = Some fds" by blast
  let ?sha = "sha256_hex E (file_data E (fds ! nat i))"
  let ?peer2 = "?peer\<lparr>next_blob_id := next_blob_id ?peer + 1,
                        peer_blobs := AList.update (next_blob_id ?peer) ?sha (peer_blobs ?peer)\<rparr>"
  let ?peer3 = "?peer\<lparr>next_blob_id := next_blob_id ?peer + 1\<rparr>"
  from reachable_dinv [OF reach] have bi: "binv (ptrs s) (ptrs s) s"
    by (simp add: dinv_def)
  note fr = make_unique_frame [OF mu msg]
  have h: "h = next_blob_id ?peer" by (rule fr(1))
  have del: "AList.delete (next_blob_id ?peer) (peer_blobs ?peer) = peer_blobs ?peer"
    by (rule delete_absent [OF fresh])
  show ?thesis
  proof (rule make_unique_success_cases [OF mu msg])
    fix s_b
    let ?s_a = "snd (blob_new E (fds ! nat i) ?sha s)"
    let ?b0 = "\<lparr>sha256 = ?sha,
                len = (case fstat_size E (fds ! nat i) of Some sz \<Rightarrow> sz | None \<Rightarrow> 0),
                fd = fds ! nat i, ref_count = 1\<rparr>"
    assume miss: "map_of (blobs s) ?sha = None"
      and add: "add_blob_to_peer sender ?sha ?s_a = Inr (h, s_b)"
      and un: "blob_unref ?sha s_b = Inr s1"
    have sa: "?s_a = s\<lparr>real_blob_size := real_blob_size s + len ?b0,
                        blobs := AList.update ?sha ?b0 (blobs s)\<rparr>"
      by (simp add: blob_new_def Let_def)
    have lp: "fst (lookup_peer sender ?s_a) = ?peer"
      by (simp add: lookup_peer_def blob_new_frame Let_def split: option.splits)
    have ba: "map_of (blobs ?s_a) ?sha = Some ?b0"
      by (simp add: sa update_conv')
    from add_blob_to_peer_exact [OF _ ba add] fresh
    have sb: "s_b = s\<lparr>real_blob_size := real_blob_size s + len ?b0,
                       apparent_blob_size := apparent_blob_size s + len ?b0,
                       blobs := AList.update ?sha (?b0\<lparr>ref_count := 2\<rparr>) (blobs s),
                       peers := AList.update sender ?peer2 (peers s)\<rparr>"
      unfolding lp by (simp add: sa)
    have bb: "map_of (blobs s_b) ?sha = Some (?b0\<lparr>ref_count := 2\<rparr>)"
      by (simp add: sb update_conv')
    from blob_unref_exact [OF un bb]
    have s1: "s1 = s\<lparr>real_blob_size := real_blob_size s + len ?b0,
                      apparent_blob_size := apparent_blob_size s + len ?b0,
                      blobs := AList.update ?sha ?b0 (blobs s),
                      peers := AList.update sender ?peer2 (peers s)\<rparr>"
      by (simp add: sb)
    have p1: "map_of (peers s1) sender = Some ?peer2" by (simp add: s1 update_conv')
    have e1: "map_of (peer_blobs ?peer2) h = Some ?sha" by (simp add: h update_conv')
    have b1: "map_of (blobs s1) ?sha = Some ?b0" by (simp add: s1 update_conv')
    have "INT_MIN < ref_count ?b0" by (simp add: INT_MIN_def)
    note fk = forget_known_handle [OF p1 e1 b1 this fg]
    show ?thesis
      unfolding fk
      by (simp add: s1 h del delete_update_same delete_idem delete_absent [OF miss])
  next
    fix b s_a s_b
    assume hit: "map_of (blobs s) ?sha = Some b"
      and ref: "blob_ref ?sha s = Inr s_a"
      and add: "add_blob_to_peer sender ?sha s_a = Inr (h, s_b)"
      and un: "blob_unref ?sha s_b = Inr s1"
    from binv_blob [OF bi hit] have "?sha \<in># ptrs s" and rc: "ref_count b = int (count (ptrs s) ?sha)"
      by simp_all
    then have pos: "1 \<le> ref_count b" by simp
    note sa = blob_ref_exact [OF ref hit]
    have lp: "fst (lookup_peer sender s_a) = ?peer"
      by (simp add: lookup_peer_def sa Let_def split: option.splits)
    have ba: "map_of (blobs s_a) ?sha = Some (b\<lparr>ref_count := ref_count b + 1\<rparr>)"
      by (simp add: sa update_conv')
    from add_blob_to_peer_exact [OF _ ba add] fresh
    have sb: "s_b = s\<lparr>apparent_blob_size := apparent_blob_size s + len b,
                       blobs := AList.update ?sha (b\<lparr>ref_count := ref_count b + 2\<rparr>) (blobs s),
                       peers := AList.update sender ?peer2 (peers s)\<rparr>"
      unfolding lp by (simp add: sa add.commute)
    have bb: "map_of (blobs s_b) ?sha = Some (b\<lparr>ref_count := ref_count b + 2\<rparr>)"
      by (simp add: sb update_conv')
    from blob_unref_exact [OF un bb] pos
    have s1: "s1 = s\<lparr>apparent_blob_size := apparent_blob_size s + len b,
                      blobs := AList.update ?sha (b\<lparr>ref_count := ref_count b + 1\<rparr>) (blobs s),
                      peers := AList.update sender ?peer2 (peers s)\<rparr>"
      by (simp add: sb add.commute)
    have p1: "map_of (peers s1) sender = Some ?peer2" by (simp add: s1 update_conv')
    have e1: "map_of (peer_blobs ?peer2) h = Some ?sha" by (simp add: h update_conv')
    have b1: "map_of (blobs s1) ?sha = Some (b\<lparr>ref_count := ref_count b + 1\<rparr>)"
      by (simp add: s1 update_conv')
    have "INT_MIN < ref_count (b\<lparr>ref_count := ref_count b + 1\<rparr>)"
      using pos by (simp add: INT_MIN_def)
    note fk = forget_known_handle [OF p1 e1 b1 this fg]
    show ?thesis
      unfolding fk using pos
      by (simp add: s1 h del delete_update_same update_triv [OF hit] add.commute)
  qed
qed

theorem make_unique_then_forget_witness:
  "run [] daemon_init = Inr daemon_init
   \<and> make_unique example_env '':1.1'' example_msg daemon_init
       = Inr (Return_ahu [] 1 [], example_state1)
   \<and> forget '':1.1'' \<lparr>parameters = Tuple_u 1, unix_fd_list = None\<rparr> example_state1
       = Inr (Return_unit, example_forgotten)
   \<and> blobs example_forgotten = blobs daemon_init
   \<and> real_blob_size example_forgotten = real_blob_size daemon_init
   \<and> apparent_blob_size example_forgotten = apparent_blob_size daemon_init"
proof -
  have r: "run [] daemon_init = Inr daemon_init" by simp
  have fresh: "map_of (peer_blobs (fst (lookup_peer '':1.1'' daemon_init)))
                 (next_blob_id (fst (lookup_peer '':1.1'' daemon_init))) = None"
    by (simp add: lookup_peer_def daemon_init_def Let_def)
  have fg: "parameters \<lparr>parameters = Tuple_u 1, unix_fd_list = None\<rparr> = Tuple_u 1" by simp
  from make_unique_then_forget [OF r example_submit1 fresh fg]
  have "forget '':1.1'' \<lparr>parameters = Tuple_u 1, unix_fd_list = None\<rparr> example_state1
          = Inr (Return_unit, example_forgotten)"
    by (simp add: lookup_peer_def daemon_init_def Let_def example_forgotten_def)
  with r example_submit1 show ?thesis
    by (simp add: example_forgotten_def daemon_init_def)
qed

text \<open>
  As written the claim fails: after submission and \<open>Forget\<close> on a fresh daemon the peer
  table holds a record of the sender, with the next handle 2.
\<close>

theorem make_unique_then_forget_counterexample:
  "make_unique example_env '':1.1'' example_msg daemon_init
     = Inr (Return_ahu [] 1 [], example_state1)
   \<and> forget '':1.1'' \<lparr>parameters = Tuple_u 1, unix_fd_list = None\<rparr> example_state1
       = Inr (Return_unit, example_forgotten)
   \<and> example_forgotten \<noteq> daemon_init"
  using example_submit1 example_forget by (simp add: example_forgotten_def daemon_init_def)

subsection \<open>C4: the size counters\<close>

text \<open>
  C4, as amended. After any run the real-size counter is the sum of \<open>len\<close> over the
  blobs in the store, and the apparent-size counter is the sum, over all handle entries, of
  \<open>len\<close> of the blob the entry points at; both sums are taken in \<open>gsize\<close>, that is
  modulo \<open>2^64\<close>. As long as the sum over the handle entries is below \<open>2^64\<close>, the
  two equalities hold without wrap-around and the apparent size is at least the real
  size.
\<close>

theorem size_counters:
  assumes "run evs daemon_init = Inr s"
  shows "real_blob_size s = (\<Sum>(k, b)\<leftarrow>blobs s. len b)
       \<and> apparent_blob_size s = (\<Sum>(n, h, p)\<leftarrow>handle_entries s. blen s p)
       \<and> ((\<Sum>(n, h, p)\<leftarrow>handle_entries s. unat (blen s p)) < 2 ^ 64 \<longrightarrow>
             unat (real_blob_size s) = (\<Sum>(k, b)\<leftarrow>blobs s. unat (len b))
           \<and> unat (apparent_blob_size s) = (\<Sum>(n, h, p)\<leftarrow>handle_entries s. unat (blen s p))
           \<and> real_blob_size s \<le> apparent_blob_size s)"
proof -
  from reachable_dinv [OF assms] have bi: "binv (ptrs s) (ptrs s) s"
    by (simp add: dinv_def)
  have real: "real_blob_size s = (\<Sum>x\<leftarrow>blobs s. len (snd x))"
    by (rule binv_real [OF bi])
  have app: "apparent_blob_size s = (\<Sum>e\<leftarrow>handle_entries s. blen s (snd (snd e)))"
    using binv_apparent [OF bi] by (simp only: sum_handle_entries)
  have le: "(\<Sum>x\<leftarrow>blobs s. unat (len (snd x))) \<le> (\<Sum>p \<in># ptrs s. unat (blen s p))"
  proof (rule sum_list_le_sum_mset [OF binv_distinct [OF bi]])
    fix k b assume "(k, b) \<in> set (blobs s)"
    with binv_distinct [OF bi] have m: "map_of (blobs s) k = Some b" by simp
    from binv_blob [OF bi m] m show "k \<in># ptrs s \<and> unat (blen s k) = unat (len b)"
      by (simp add: blen_def)
  qed
  have bounded: "unat (real_blob_size s) = (\<Sum>x\<leftarrow>blobs s. unat (len (snd x)))
           \<and> unat (apparent_blob_size s) = (\<Sum>e\<leftarrow>handle_entries s. unat (blen s (snd (snd e))))
           \<and> real_blob_size s \<le> apparent_blob_size s"
    if small: "(\<Sum>e\<leftarrow>handle_entries s. unat (blen s (snd (snd e)))) < 2 ^ 64"
  proof -
    let ?T = "\<Sum>e\<leftarrow>handle_entries s. unat (blen s (snd (snd e)))"
    let ?B = "\<Sum>x\<leftarrow>blobs s. unat (len (snd x))"
    have BT: "?B \<le> ?T" using le by (simp only: sum_handle_entries [of "\<lambda>p. unat (blen s p)" s])
    have "unat (apparent_blob_size s) = ?T mod 2 ^ 64"
      by (simp add: app unat_sum_list comp_def)
    with small have a: "unat (apparent_blob_size s) = ?T" by simp
    have "unat (real_blob_size s) = ?B mod 2 ^ 64"
      by (simp add: real unat_sum_list comp_def)
    with small BT have r: "unat (real_blob_size s) = ?B" by simp
    from a r BT show ?thesis by (simp add: word_le_nat_alt)
  qed
  from real app bounded show ?thesis by (simp add: case_prod_unfold)
qed

theorem size_counters_witness:
  "run [submit '':1.1'', submit '':1.2''] daemon_init = Inr example_state2
   \<and> (\<Sum>(n, h, p)\<leftarrow>handle_entries example_state2. unat (blen example_state2 p)) < 2 ^ 64
   \<and> real_blob_size example_state2 = (\<Sum>(k, b)\<leftarrow>blobs example_state2. len b)
   \<and> apparent_blob_size example_state2
        = (\<Sum>(n, h, p)\<leftarrow>handle_entries example_state2. blen example_state2 p)
   \<and> real_blob_size example_state2 \<le> apparent_blob_size example_state2"
proof -
  have small: "(\<Sum>(n, h, p)\<leftarrow>handle_entries example_state2. unat (blen example_state2 p)) < 2 ^ 64"
    by (simp add: handle_entries_def blen_def example_state2_def example_peer_def example_blob_def)
  from size_counters [OF example_run2] small example_run2 show ?thesis by blast
qed

text \<open>
  Without that bound the order fails: three handles on a blob of \<open>2^63 - 65537\<close> bytes
  (a sparse sealed file every chunk of which \<open>pread\<close> reads) make the apparent-size
  counter wrap around to \<open>2^63 - 196611\<close> and fall below the real-size counter.
\<close>

theorem apparent_size_wraps_counterexample:
  "run [huge_submit, huge_submit, huge_submit] daemon_init = Inr huge_state
   \<and> apparent_blob_size huge_state < real_blob_size huge_state"
  using huge_run by (simp add: huge_state_def)

subsection \<open>C5: the failures of MakeUnique\<close>

text \<open>
  When the behaviour is defined, the invalid-args error is given exactly for a payload
  that is not of type \<open>(h)\<close>, an index without a descriptor, a descriptor that does not
  report all four seals, and a failed read; and then the state is the one before the call.
\<close>

lemma make_unique_invalid_args_iff:
  assumes mu: "make_unique E sender msg s = Inr (r, s')"
  shows "(\<exists>m. r = Return_error G_DBUS_ERROR_INVALID_ARGS m) \<longleftrightarrow>
           (case parameters msg of
              Tuple_h handle \<Rightarrow>
                (case unix_fd_list msg of
                   None \<Rightarrow> True
                 | Some fds \<Rightarrow>
                     int (length fds) \<le> handle \<or> fds ! nat handle = - 1
                     \<or> fcntl_get_seals E (fds ! nat handle) = - 1
                     \<or> fcntl_get_seals E (fds ! nat handle) AND ALL_SEALS \<noteq> ALL_SEALS
                     \<or> checksum_from_fd E (fds ! nat handle) [] 0 = None)
            | _ \<Rightarrow> True)"
    and "(\<exists>m. r = Return_error G_DBUS_ERROR_INVALID_ARGS m) \<Longrightarrow> s' = s"
proof -
  have "((\<exists>m. r = Return_error G_DBUS_ERROR_INVALID_ARGS m) \<longleftrightarrow>
           (case parameters msg of
              Tuple_h handle \<Rightarrow>
                (case unix_fd_list msg of
                   None \<Rightarrow> True
                 | Some fds \<Rightarrow>
                     int (length fds) \<le> handle \<or> fds ! nat handle = - 1
                     \<or> fcntl_get_seals E (fds ! nat handle) = - 1
                     \<or> fcntl_get_seals E (fds ! nat handle) AND ALL_SEALS \<noteq> ALL_SEALS
                     \<or> checksum_from_fd E (fds ! nat handle) [] 0 = None)
            | _ \<Rightarrow> True))
        \<and> ((\<exists>m. r = Return_error G_DBUS_ERROR_INVALID_ARGS m) \<longrightarrow> s' = s)"
  proof (cases "parameters msg")
    case (Tuple_h handle)
    from mu Tuple_h obtain fd0 where st: "steal_one_fd_from_list (unix_fd_list msg) handle = Inr fd0"
      by (auto simp: make_unique_def and_then_eq_Inr)
    show ?thesis
    proof (cases "fd0 = - 1 \<or> fcntl_get_seals E fd0 = - 1
                 \<or> fcntl_get_seals E fd0 AND ALL_SEALS \<noteq> ALL_SEALS
                 \<or> checksum_from_fd E fd0 [] 0 = None")
      case True
      with mu Tuple_h st have r: "\<exists>m. r = Return_error G_DBUS_ERROR_INVALID_ARGS m" and s: "s' = s"
        by (auto simp: make_unique_def Let_def split: if_splits)
      from st True have "case unix_fd_list msg of
                   None \<Rightarrow> True
                 | Some fds \<Rightarrow>
                     int (length fds) \<le> handle \<or> fds ! nat handle = - 1
                     \<or> fcntl_get_seals E (fds ! nat handle) = - 1
                     \<or> fcntl_get_seals E (fds ! nat handle) AND ALL_SEALS \<noteq> ALL_SEALS
                     \<or> checksum_from_fd E (fds ! nat handle) [] 0 = None"
        by (auto simp: steal_one_fd_from_list_def split: option.splits if_splits)
      with r s Tuple_h show ?thesis by simp
    next
      case False
      then obtain checksum where ck: "checksum_from_fd E fd0 [] 0 = Some checksum" by auto
      from False steal_one_fd_from_list_Inr [OF st] obtain fds where
        fds: "unix_fd_list msg = Some fds" "0 \<le> handle" "handle < int (length fds)"
          "fd0 = fds ! nat handle"
        by auto
      define sha where "sha = sha256_hex E checksum"
      have mu_eq: "make_unique E sender msg s = and_then (lookup_blob sha s) (\<lambda>(blob, s1).
        case blob of
          None \<Rightarrow>
            let (p, s2) = blob_new E fd0 sha s1
            in and_then (add_blob_to_peer sender p s2) (\<lambda>(blob_id, s3).
               and_then (blob_unref p s3) (\<lambda>s4. Inr (Return_ahu [] blob_id [], s4)))
        | Some p \<Rightarrow>
            (case map_of (blobs s1) p of
               None \<Rightarrow> Inl Use_after_free
             | Some b \<Rightarrow>
                 if fd_list_append_fails E
                 then and_then (blob_unref p s1) (\<lambda>s2.
                        Inr (Return_error G_DBUS_ERROR_FAILED ''Failed to dup fd'', s2))
                 else
                   and_then (add_blob_to_peer sender p s1) (\<lambda>(blob_id, s2).
                   and_then (blob_unref p s2) (\<lambda>s3.
                     Inr (Return_ahu [0] blob_id [fd b], s3)))))"
        unfolding sha_def using Tuple_h st False ck by (simp add: make_unique_def Let_def)
      from mu obtain blob s1 where lk: "lookup_blob sha s = Inr (blob, s1)"
        and rest: "(case blob of
          None \<Rightarrow>
            let (p, s2) = blob_new E fd0 sha s1
            in and_then (add_blob_to_peer sender p s2) (\<lambda>(blob_id, s3).
               and_then (blob_unref p s3) (\<lambda>s4. Inr (Return_ahu [] blob_id [], s4)))
        | Some p \<Rightarrow>
            (case map_of (blobs s1) p of
               None \<Rightarrow> Inl Use_after_free
             | Some b \<Rightarrow>
                 if fd_list_append_fails E
                 then and_then (blob_unref p s1) (\<lambda>s2.
                        Inr (Return_error G_DBUS_ERROR_FAILED ''Failed to dup fd'', s2))
                 else
                   and_then (add_blob_to_peer sender p s1) (\<lambda>(blob_id, s2).
                   and_then (blob_unref p s2) (\<lambda>s3.
                     Inr (Return_ahu [0] blob_id [fd b], s3))))) = Inr (r, s')"
        unfolding mu_eq and_then_eq_Inr by (auto simp del: split_paired_Ex)
      have no: "\<not> (\<exists>m. r = Return_error G_DBUS_ERROR_INVALID_ARGS m)"
      proof (cases blob)
        case None
        obtain p s2 where bn: "blob_new E fd0 sha s1 = (p, s2)" by (cases "blob_new E fd0 sha s1")
        from rest None bn make_unique_tail_not_invalid_args [of sender p s2 "[]" "[]" r s']
        show ?thesis by auto
      next
        case (Some p)
        with rest obtain b where b: "map_of (blobs s1) p = Some b"
          by (auto split: option.splits)
        show ?thesis
        proof (cases "fd_list_append_fails E")
          case True
          with rest Some b show ?thesis by (auto simp: and_then_eq_Inr)
        next
          case False
          with rest Some b make_unique_tail_not_invalid_args [of sender p s1 "[0]" "[fd b]" r s']
          show ?thesis by auto
        qed
      qed
      with Tuple_h fds False show ?thesis by simp
    qed
  next
    case (Tuple_u x)
    with mu show ?thesis by (auto simp: make_unique_def)
  next
    case Other_type
    with mu show ?thesis by (auto simp: make_unique_def)
  qed
  then show "(\<exists>m. r = Return_error G_DBUS_ERROR_INVALID_ARGS m) \<longleftrightarrow>
           (case parameters msg of
              Tuple_h handle \<Rightarrow>
                (case unix_fd_list msg of
                   None \<Rightarrow> True
                 | Some fds \<Rightarrow>
                     int (length fds) \<le> handle \<or> fds ! nat handle = - 1
                     \<or> fcntl_get_seals E (fds ! nat handle) = - 1
                     \<or> fcntl_get_seals E (fds ! nat handle) AND ALL_SEALS \<noteq> ALL_SEALS
                     \<or> checksum_from_fd E (fds ! nat handle) [] 0 = None)
            | _ \<Rightarrow> True)"
    and "(\<exists>m. r = Return_error G_DBUS_ERROR_INVALID_ARGS m) \<Longrightarrow> s' = s"
    by blast+
qed

text \<open>
  C5. The specification asks for an invalid-args error exactly when the parameters are
  not of type \<open>(h)\<close>, no descriptor is attached at the given index, a seal is missing, or
  reading fails. For a negative index no descriptor is attached at the index, but the code
  does not answer invalid-args: the bound check passes and \<open>fds[handle]\<close> reads in front
  of the array.
\<close>

theorem make_unique_negative_handle:
  "make_unique example_env '':1.1'' \<lparr>parameters = Tuple_h (- 1), unix_fd_list = Some [5]\<rparr>
     daemon_init = Inl Out_of_bounds_read"
  by (simp add: make_unique_def steal_one_fd_from_list_def)

subsection \<open>C6: Forget of an unknown handle\<close>

text \<open>
  C6, as amended. A \<open>Forget\<close> whose handle has no entry in the sender's table is answered
  with the empty tuple. The state is unchanged when the daemon has a record of the sender;
  for a sender it has never seen, \<open>lookup_peer\<close> files a fresh record (counter 1, no
  handles) and nothing else changes.
\<close>

theorem forget_unknown_handle:
  assumes "parameters msg = Tuple_u blob_id"
    and "case map_of (peers s) sender of
           None \<Rightarrow> True
         | Some peer \<Rightarrow> map_of (peer_blobs peer) blob_id = None"
  shows "forget sender msg s =
           Inr (Return_unit,
                case map_of (peers s) sender of
                  Some peer \<Rightarrow> s
                | None \<Rightarrow> s\<lparr>peers := peers s @
                              [(sender, \<lparr>name = sender, next_blob_id = 1, peer_blobs = []\<rparr>)]\<rparr>)"
proof (cases "map_of (peers s) sender")
  case None
  then have "sender \<notin> fst ` set (peers s)"
    by (simp add: map_of_eq_None_iff)
  then have "AList.update sender v (peers s) = peers s @ [(sender, v)]" for v
    by (rule update_absent)
  with None assms(1) show ?thesis
    by (simp add: forget_def remove_blob_from_peer_def lookup_peer_def Let_def)
next
  case (Some peer)
  with assms show ?thesis
    by (simp add: forget_def remove_blob_from_peer_def lookup_peer_def Let_def)
qed

text \<open>A known sender forgets a handle it does not hold: nothing changes.\<close>

theorem forget_unknown_handle_witness:
  "forget '':1.1'' \<lparr>parameters = Tuple_u 7, unix_fd_list = None\<rparr> example_state1
     = Inr (Return_unit, example_state1)"
  using forget_unknown_handle [of "\<lparr>parameters = Tuple_u 7, unix_fd_list = None\<rparr>" 7
      example_state1 "'':1.1''"]
  by (simp add: example_state1_def example_peer_def)

text \<open>
  The claim as written fails for a sender the daemon has never seen: the peer table
  gains a record.
\<close>

theorem forget_unseen_sender_counterexample:
  "forget '':1.7'' \<lparr>parameters = Tuple_u 1, unix_fd_list = None\<rparr> daemon_init
     \<noteq> Inr (Return_unit, daemon_init)"
  by (simp add: forget_def remove_blob_from_peer_def lookup_peer_def daemon_init_def Let_def)

subsection \<open>C7: death of a peer\<close>

text \<open>
  C7. In a state the daemon can reach, let a \<open>NameOwnerChanged\<close> signal arrive whose
  name starts with a colon, whose old owner is the name and whose new owner is empty, and
  let the daemon have a record of that peer. Then the record is removed and the other
  records stay; no handle entry of the peer is left; the apparent size goes down by the
  lengths of the blobs its entries pointed at; and every blob loses as many references as
  the peer held on it, and is taken out of the store exactly when none remains.
\<close>

theorem peer_death_releases:
  assumes reach: "run evs daemon_init = Inr s"
    and nm: "nm = CHR '':'' # rest"
    and peer: "map_of (peers s) nm = Some peer"
  shows "\<exists>s'. name_owner_changed nm nm [] s = Inr s'
           \<and> map_of (peers s') nm = None
           \<and> (\<forall>n. n \<noteq> nm \<longrightarrow> map_of (peers s') n = map_of (peers s) n)
           \<and> (\<forall>(n, h, p) \<in> set (handle_entries s'). n \<noteq> nm)
           \<and> apparent_blob_size s'
                = apparent_blob_size s - (\<Sum>(h, p)\<leftarrow>peer_blobs peer. blen s p)
           \<and> (\<forall>k. map_of (blobs s') k =
                 (case map_of (blobs s) k of
                    None \<Rightarrow> None
                  | Some b \<Rightarrow>
                      if ref_count b = int (count_list (map snd (peer_blobs peer)) k) then None
                      else Some (b\<lparr>ref_count :=
                             ref_count b - int (count_list (map snd (peer_blobs peer)) k)\<rparr>)))"
proof -
  from reachable_dinv [OF reach] have wf: "wf_peers s" and bi: "binv (ptrs s) (ptrs s) s"
    by (simp_all add: dinv_def)
  define s1 where "s1 = s\<lparr>peers := AList.delete nm (peers s)\<rparr>"
  let ?qs = "map snd (peer_blobs peer)"
  from nm peer have noc: "name_owner_changed nm nm [] s = destroy_values ?qs s1"
    by (simp add: name_owner_changed_def peer_free_def s1_def)
  from peer_delete [OF wf, of nm] have p1: "ptrs s1 = tbl_ptrs (AList.delete nm (peers s))"
    by (simp_all add: s1_def)
  from ptrs_split [OF wf peer] p1 have eq: "ptrs s = ptrs s1 + mset ?qs"
    by (simp add: vals_def)
  have "binv (ptrs s1 + mset ?qs) (ptrs s1 + mset ?qs) s"
    using bi unfolding eq [symmetric] .
  then have "binv (ptrs s1 + mset ?qs) (ptrs s1 + mset ?qs) s1"
    by (simp only: s1_def binv_peers_upd)
  from destroy_values_exact [OF this subset_mset.order_refl]
  obtain s' where dv: "destroy_values ?qs s1 = Inr s'" and ps: "peers s' = peers s1"
    and ap: "apparent_blob_size s' = apparent_blob_size s1 - (\<Sum>q\<leftarrow>?qs. blen s1 q)"
    and mp: "\<forall>k. map_of (blobs s') k =
                 (case map_of (blobs s1) k of
                    None \<Rightarrow> None
                  | Some b \<Rightarrow>
                      if ref_count b = int (count_list ?qs k) then None
                      else Some (b\<lparr>ref_count := ref_count b - int (count_list ?qs k)\<rparr>))"
    by blast
  have peers': "peers s' = AList.delete nm (peers s)"
    by (simp add: ps s1_def)
  have gone: "map_of (peers s') nm = None"
    by (simp add: peers' delete_conv')
  have others: "\<forall>n. n \<noteq> nm \<longrightarrow> map_of (peers s') n = map_of (peers s) n"
    by (simp add: peers' delete_conv')
  have none: "\<forall>(n, h, p) \<in> set (handle_entries s'). n \<noteq> nm"
  proof (clarify)
    fix h p assume "(nm, h, p) \<in> set (handle_entries s')"
    from handle_entries_names [OF this] show False
      using delete_notin_dom [of nm "peers s"] by (simp add: peers')
  qed
  have "(\<Sum>q\<leftarrow>?qs. blen s1 q) = (\<Sum>(h, p)\<leftarrow>peer_blobs peer. blen s p)"
    by (simp add: s1_def comp_def case_prod_unfold)
  with ap have ap': "apparent_blob_size s'
      = apparent_blob_size s - (\<Sum>(h, p)\<leftarrow>peer_blobs peer. blen s p)"
    by (simp add: s1_def)
  from mp have mp': "\<forall>k. map_of (blobs s') k =
                 (case map_of (blobs s) k of
                    None \<Rightarrow> None
                  | Some b \<Rightarrow>
                      if ref_count b = int (count_list ?qs k) then None
                      else Some (b\<lparr>ref_count := ref_count b - int (count_list ?qs k)\<rparr>))"
    by (simp add: s1_def)
  show ?thesis
  proof (intro exI conjI)
    show "name_owner_changed nm nm [] s = Inr s'" by (simp only: noc dv)
  qed (rule gone others none ap' mp')+
qed

text \<open>The peer \<open>:1.2\<close> of the example dies; \<open>:1.1\<close> keeps the blob alive.\<close>

theorem peer_death_releases_witness:
  "run [submit '':1.1'', submit '':1.2''] daemon_init = Inr example_state2
   \<and> map_of (peers example_state2) '':1.2'' = Some (example_peer '':1.2'')
   \<and> name_owner_changed '':1.2'' '':1.2'' [] example_state2 = Inr example_state1
   \<and> map_of (peers example_state1) '':1.2'' = None
   \<and> map_of (peers example_state1) '':1.1'' = map_of (peers example_state2) '':1.1''
   \<and> apparent_blob_size example_state1 = apparent_blob_size example_state2 - 2
   \<and> map_of (blobs example_state1) (example_digest [72, 105]) = Some (example_blob 1)"
proof -
  have peer: "map_of (peers example_state2) '':1.2'' = Some (example_peer '':1.2'')"
    by (simp add: example_state2_def)
  from peer_death_releases [OF example_run2 refl peer]
  obtain s' where "name_owner_changed '':1.2'' '':1.2'' [] example_state2 = Inr s'"
    and "map_of (peers s') '':1.2'' = None"
    and "\<forall>n. n \<noteq> '':1.2'' \<longrightarrow> map_of (peers s') n = map_of (peers example_state2) n"
    and "apparent_blob_size s'
           = apparent_blob_size example_state2
               - (\<Sum>(h, p)\<leftarrow>peer_blobs (example_peer '':1.2''). blen example_state2 p)"
    by blast
  with example_death
  have "map_of (peers example_state1) '':1.2'' = None"
    and "map_of (peers example_state1) '':1.1'' = map_of (peers example_state2) '':1.1''"
    and "apparent_blob_size example_state1
           = apparent_blob_size example_state2
               - (\<Sum>(h, p)\<leftarrow>peer_blobs (example_peer '':1.2''). blen example_state2 p)"
    by simp_all
  moreover have "(\<Sum>(h, p)\<leftarrow>peer_blobs (example_peer '':1.2''). blen example_state2 p) = 2"
    by (simp add: example_peer_def blen_def example_state2_def example_blob_def)
  moreover have "map_of (blobs example_state1) (example_digest [72, 105]) = Some (example_blob 1)"
    by (simp add: example_state1_def)
  ultimately show ?thesis using example_run2 peer example_death by simp
qed

subsection \<open>C8: the same content submitted twice\<close>

text \<open>
  C8. In a state the daemon can reach, let two \<open>MakeUnique\<close> calls succeed one after
  the other, by the same peer or by two peers, on descriptors with the same bytes. Then the
  blob store has exactly one entry for the digest of these bytes, and the second call has
  added no other key; the two handles are distinct references (the peers differ or the
  numbers differ, handles being numbered per peer); and both handle entries are in place
  and point at that blob.
\<close>

theorem same_content_submitted_twice:
  assumes reach: "run evs daemon_init = Inr s"
    and msg1: "parameters msg1 = Tuple_h i1" "unix_fd_list msg1 = Some fds1"
    and msg2: "parameters msg2 = Tuple_h i2" "unix_fd_list msg2 = Some fds2"
    and content: "file_data E1 (fds1 ! nat i1) = bytes" "file_data E2 (fds2 ! nat i2) = bytes"
    and digest: "sha256_hex E2 = sha256_hex E1"
    and mu1: "make_unique E1 sender1 msg1 s = Inr (Return_ahu ah1 h1 rf1, s1)"
    and mu2: "make_unique E2 sender2 msg2 s1 = Inr (Return_ahu ah2 h2 rf2, s2)"
  shows "length (filter (\<lambda>(k, b). k = sha256_hex E1 bytes) (blobs s2)) = 1
       \<and> fst ` set (blobs s2) \<subseteq> insert (sha256_hex E1 bytes) (fst ` set (blobs s))
       \<and> (sender1, h1) \<noteq> (sender2, h2)
       \<and> (sender1, h1, sha256_hex E1 bytes) \<in> set (handle_entries s2)
       \<and> (sender2, h2, sha256_hex E1 bytes) \<in> set (handle_entries s2)"
proof -
  let ?sha = "sha256_hex E1 bytes"
  let ?p1 = "fst (lookup_peer sender1 s)"
  let ?P1 = "?p1\<lparr>next_blob_id := h1 + 1, peer_blobs := AList.update h1 ?sha (peer_blobs ?p1)\<rparr>"
  let ?p2 = "fst (lookup_peer sender2 s1)"
  let ?P2 = "?p2\<lparr>next_blob_id := h2 + 1, peer_blobs := AList.update h2 ?sha (peer_blobs ?p2)\<rparr>"
  from reachable_dinv [OF reach] have i0: "dinv {#} s" .
  from make_unique_dinv [OF i0 mu1] have i1: "dinv {#} s1" .
  from make_unique_dinv [OF i1 mu2] have i2: "dinv {#} s2" .
  note f1 = make_unique_frame [OF mu1 msg1, unfolded content]
  note f2 = make_unique_frame [OF mu2 msg2, unfolded content digest]
  from i1 have wf1: "wf_peers s1" and b1: "binv (ptrs s1) (ptrs s1) s1" by (simp_all add: dinv_def)
  from i2 have wf2: "wf_peers s2" and b2: "binv (ptrs s2) (ptrs s2) s2" by (simp_all add: dinv_def)
  have P1: "map_of (peers s1) sender1 = Some ?P1" by (simp add: f1(4))
  have e1: "map_of (peer_blobs ?P1) h1 = Some ?sha" by (simp add: update_conv')
  from entry_in_ptrs [OF wf1 P1 e1] binv_live [OF b1] have live1: "map_of (blobs s1) ?sha \<noteq> None"
    by auto
  have keys: "fst ` set (blobs s2) \<subseteq> insert ?sha (fst ` set (blobs s))"
    using f2(3) [OF live1] f1(2) by blast
  have P2: "map_of (peers s2) sender2 = Some ?P2" by (simp add: f2(4))
  have e2: "map_of (peer_blobs ?P2) h2 = Some ?sha" by (simp add: update_conv')
  from entry_in_handle_entries [OF wf2 P2 e2]
  have in2: "(sender2, h2, ?sha) \<in> set (handle_entries s2)" .
  from entry_in_ptrs [OF wf2 P2 e2] binv_live [OF b2] obtain b where "map_of (blobs s2) ?sha = Some b"
    by auto
  from filter_key_length [OF binv_distinct [OF b2] this]
  have one: "length (filter (\<lambda>(k, b). k = ?sha) (blobs s2)) = 1" .
  have "(sender1, h1) \<noteq> (sender2, h2) \<and> (sender1, h1, ?sha) \<in> set (handle_entries s2)"
  proof (cases "sender2 = sender1")
    case False
    then have "map_of (peers s2) sender1 = Some ?P1" using P1 by (simp add: f2(4))
    from entry_in_handle_entries [OF wf2 this e1] False show ?thesis by simp
  next
    case True
    have "?p2 = ?P1" using P1 True by (simp add: lookup_peer_def)
    with f2(1) have h2: "h2 = h1 + 1" by simp
    then have ne: "h2 \<noteq> h1" by simp
    have "map_of (peer_blobs ?P2) h1 = Some ?sha"
      using ne \<open>?p2 = ?P1\<close> by (simp add: update_conv')
    from entry_in_handle_entries [OF wf2 P2 this] True ne show ?thesis by simp
  qed
  with one keys in2 show ?thesis by simp
qed

text \<open>
  Two peers submit \<open>Hi\<close> to a fresh daemon: one blob, and each peer holds its handle 1.
\<close>

theorem same_content_submitted_twice_witness:
  "run [] daemon_init = Inr daemon_init
   \<and> make_unique example_env '':1.1'' example_msg daemon_init
       = Inr (Return_ahu [] 1 [], example_state1)
   \<and> make_unique example_env '':1.2'' example_msg example_state1
       = Inr (Return_ahu [0] 1 [5], example_state2)
   \<and> length (filter (\<lambda>(k, b). k = example_digest [72, 105]) (blobs example_state2)) = 1
   \<and> length (blobs example_state2) = 1
   \<and> ('':1.1'', 1 :: guint32) \<noteq> ('':1.2'', 1)
   \<and> ('':1.1'', 1, example_digest [72, 105]) \<in> set (handle_entries example_state2)
   \<and> ('':1.2'', 1, example_digest [72, 105]) \<in> set (handle_entries example_state2)"
proof -
  have r: "run [] daemon_init = Inr daemon_init" by simp
  have m: "parameters example_msg = Tuple_h 0" "unix_fd_list example_msg = Some [5]"
    by (simp_all add: example_msg_def)
  have c: "file_data example_env ([5] ! nat 0) = [72, 105]"
    by (simp add: example_env_def)
  from same_content_submitted_twice [OF r m m c c refl example_submit1 example_submit2]
  have "length (filter (\<lambda>(k, b). k = example_digest [72, 105]) (blobs example_state2)) = 1
       \<and> ('':1.1'', 1 :: guint32) \<noteq> ('':1.2'', 1)
       \<and> ('':1.1'', 1, example_digest [72, 105]) \<in> set (handle_entries example_state2)
       \<and> ('':1.2'', 1, example_digest [72, 105]) \<in> set (handle_entries example_state2)"
    by simp
  moreover have "length (blobs example_state2) = 1" by (simp add: example_state2_def)
  ultimately show ?thesis using r example_submit1 example_submit2 by simp
qed

subsection \<open>C9: the reply handler of the asynchronous submission\<close>

text \<open>
  C9, as amended. Let the reply to \<open>MakeUnique\<close> arrive. If its array names a
  descriptor of the attached list, the handler maps that descriptor read-only, private and
  fixed at the address and length of the existing mapping, and stops on a failed assertion
  if \<open>mmap\<close> returns any other address; if the array is empty, the handler makes no
  mapping call. In both cases the handle of the reply is stored in the record before the
  handler drops its reference. When the last reference to a record goes, the mapping is
  unmapped, and \<open>Forget\<close> is sent with the stored handle if that handle is not 0 (and
  the client has its bus connection).
\<close>

theorem make_unique_cb_reply:
  assumes reply: "response I = Some (handle_iter, id0)"
  shows "(handle_iter = h # hs \<and> response_fd_list I = Some fds \<and> 0 \<le> h \<and> h < int (length fds)
            \<and> fds ! nat h \<noteq> - 1 \<longrightarrow>
          make_unique_cb I mapped_data =
            (if mmap_result I = md_data mapped_data
             then Inr (fst (mapped_data_unref I (mapped_data\<lparr>md_id := id0\<rparr>)),
                       Mmap (md_data mapped_data) (md_len mapped_data) PROT_READ
                         (MAP_PRIVATE OR MAP_FIXED) (fds ! nat h) 0
                       # Close (fds ! nat h)
                       # snd (mapped_data_unref I (mapped_data\<lparr>md_id := id0\<rparr>)))
             else Inl Assertion_failed))
       \<and> (handle_iter = [] \<longrightarrow>
          make_unique_cb I mapped_data = Inr (mapped_data_unref I (mapped_data\<lparr>md_id := id0\<rparr>)))
       \<and> (md_ref_count mapped_data \<noteq> 1 \<longrightarrow>
          mapped_data_unref I (mapped_data\<lparr>md_id := id0\<rparr>)
            = (Some (mapped_data\<lparr>md_id := id0, md_ref_count := md_ref_count mapped_data - 1\<rparr>), []))
       \<and> (md_ref_count mapped_data = 1 \<longrightarrow>
          mapped_data_unref I (mapped_data\<lparr>md_id := id0\<rparr>)
            = (None, Munmap (md_data mapped_data) (md_len mapped_data)
                       # (if id0 \<noteq> 0 \<and> bus_available I then [Call_forget id0] else [])))
       \<and> (\<forall>d I'. md_id d = id0 \<and> id0 \<noteq> 0 \<and> md_ref_count d = 1 \<and> bus_available I' \<longrightarrow>
          mapped_data_unref I' d = (None, [Munmap (md_data d) (md_len d), Call_forget id0]))"
proof (intro conjI impI allI)
  assume "handle_iter = h # hs \<and> response_fd_list I = Some fds \<and> 0 \<le> h \<and> h < int (length fds)
            \<and> fds ! nat h \<noteq> - 1"
  with reply show "make_unique_cb I mapped_data =
            (if mmap_result I = md_data mapped_data
             then Inr (fst (mapped_data_unref I (mapped_data\<lparr>md_id := id0\<rparr>)),
                       Mmap (md_data mapped_data) (md_len mapped_data) PROT_READ
                         (MAP_PRIVATE OR MAP_FIXED) (fds ! nat h) 0
                       # Close (fds ! nat h)
                       # snd (mapped_data_unref I (mapped_data\<lparr>md_id := id0\<rparr>)))
             else Inl Assertion_failed)"
    by (simp add: make_unique_cb_def steal_one_fd_from_list_def case_prod_unfold Let_def)
next
  assume "handle_iter = []"
  with reply show "make_unique_cb I mapped_data
      = Inr (mapped_data_unref I (mapped_data\<lparr>md_id := id0\<rparr>))"
    by (simp add: make_unique_cb_def case_prod_unfold Let_def)
next
  assume "md_ref_count mapped_data \<noteq> 1"
  then show "mapped_data_unref I (mapped_data\<lparr>md_id := id0\<rparr>)
      = (Some (mapped_data\<lparr>md_id := id0, md_ref_count := md_ref_count mapped_data - 1\<rparr>), [])"
    using mapped_data_unref_shared [of "mapped_data\<lparr>md_id := id0\<rparr>" I] by simp
next
  assume "md_ref_count mapped_data = 1"
  then show "mapped_data_unref I (mapped_data\<lparr>md_id := id0\<rparr>)
      = (None, Munmap (md_data mapped_data) (md_len mapped_data)
                 # (if id0 \<noteq> 0 \<and> bus_available I then [Call_forget id0] else []))"
    using mapped_data_unref_last [of "mapped_data\<lparr>md_id := id0\<rparr>" I] by simp
next
  fix d :: MappedData and I' :: ipc
  assume "md_id d = id0 \<and> id0 \<noteq> 0 \<and> md_ref_count d = 1 \<and> bus_available I'"
  then show "mapped_data_unref I' d = (None, [Munmap (md_data d) (md_len d), Call_forget id0])"
    using mapped_data_unref_last [of d I'] by auto
qed

text \<open>
  The handler runs while the buffer is still alive: on a hit the mapping is replaced, and
  is left alone when \<open>mmap\<close> lands elsewhere or the reply carries no descriptor;
  dropping the last reference afterwards sends \<open>Forget 1\<close>.
\<close>

theorem make_unique_cb_reply_witness:
  "response example_ipc = Some ([0], 1)
   \<and> make_unique_cb example_ipc (mapped_data_ref (mapped_data_new 4096 2))
       = Inr (Some \<lparr>md_ref_count = 1, md_data = 4096, md_len = 2, md_id = 1\<rparr>,
              [Mmap 4096 2 PROT_READ (MAP_PRIVATE OR MAP_FIXED) 7 0, Close 7])
   \<and> make_unique_cb (example_ipc\<lparr>mmap_result := 8192\<rparr>) (mapped_data_ref (mapped_data_new 4096 2))
       = Inl Assertion_failed
   \<and> make_unique_cb example_miss_ipc (mapped_data_ref (mapped_data_new 4096 2))
       = Inr (Some \<lparr>md_ref_count = 1, md_data = 4096, md_len = 2, md_id = 1\<rparr>, [])
   \<and> mapped_data_unref example_ipc \<lparr>md_ref_count = 1, md_data = 4096, md_len = 2, md_id = 1\<rparr>
       = (None, [Munmap 4096 2, Call_forget 1])"
proof -
  let ?d = "mapped_data_ref (mapped_data_new 4096 2)"
  have d: "?d = \<lparr>md_ref_count = 2, md_data = 4096, md_len = 2, md_id = 0\<rparr>"
    by (simp add: mapped_data_ref_def mapped_data_new_def)
  have r: "response example_ipc = Some ([0], 1)" by (simp add: example_ipc_def)
  have r2: "response (example_ipc\<lparr>mmap_result := 8192\<rparr>) = Some ([0], 1)"
    by (simp add: example_ipc_def)
  have r3: "response example_miss_ipc = Some ([], 1)" by (simp add: example_miss_ipc_def)
  from make_unique_cb_reply [OF r, of 0 "[]" "[7]" ?d]
  have a: "make_unique_cb example_ipc ?d
       = Inr (Some \<lparr>md_ref_count = 1, md_data = 4096, md_len = 2, md_id = 1\<rparr>,
              [Mmap 4096 2 PROT_READ (MAP_PRIVATE OR MAP_FIXED) 7 0, Close 7])"
    by (simp add: d example_ipc_def mapped_data_unref_def Let_def)
  from make_unique_cb_reply [OF r2, of 0 "[]" "[7]" ?d]
  have b: "make_unique_cb (example_ipc\<lparr>mmap_result := 8192\<rparr>) ?d = Inl Assertion_failed"
    by (simp add: d example_ipc_def)
  from make_unique_cb_reply [OF r3, of 0 "[]" "[]" ?d]
  have c: "make_unique_cb example_miss_ipc ?d
       = Inr (Some \<lparr>md_ref_count = 1, md_data = 4096, md_len = 2, md_id = 1\<rparr>, [])"
    by (simp add: d mapped_data_unref_def Let_def)
  from make_unique_cb_reply [OF r, of 0 "[]" "[7]" ?d]
  have e: "mapped_data_unref example_ipc \<lparr>md_ref_count = 1, md_data = 4096, md_len = 2, md_id = 1\<rparr>
       = (None, [Munmap 4096 2, Call_forget 1])"
    by (simp add: example_ipc_def)
  from r a b c e show ?thesis by simp
qed

text \<open>
  As written the claim fails for the handle 0, which the daemon issues once a peer's
  counter has wrapped around: the record is destroyed without a \<open>Forget\<close>.
\<close>

theorem make_unique_cb_handle_zero_counterexample:
  "make_unique_cb example_zero_ipc (mapped_data_new 4096 2) = Inr (None, [Munmap 4096 2])"
  by (simp add: make_unique_cb_def example_zero_ipc_def mapped_data_new_def
      mapped_data_unref_def Let_def)

subsection \<open>C10: unknown methods\<close>

text \<open>
  C10. A call of a method that is neither \<open>MakeUnique\<close> nor \<open>Forget\<close> is answered with
  the unknown-method error, and the state of the daemon stays as it is.
\<close>

theorem method_call_unknown_method:
  assumes "method_name \<noteq> ''MakeUnique''" and "method_name \<noteq> ''Forget''"
  shows "method_call E sender interface_name method_name msg s =
           Inr (Return_error G_DBUS_ERROR_UNKNOWN_METHOD
                  (''Method '' @ method_name @ '' is not implemented on interface ''
                     @ interface_name), s)"
  using assms by (simp add: method_call_def)

theorem method_call_unknown_method_witness:
  "''Ping'' \<noteq> ''MakeUnique'' \<and> ''Ping'' \<noteq> ''Forget''
   \<and> method_call example_env '':1.1'' ''org.freedesktop.portal.Unique'' ''Ping'' example_msg
        example_state1
      = Inr (Return_error G_DBUS_ERROR_UNKNOWN_METHOD
               ''Method Ping is not implemented on interface org.freedesktop.portal.Unique'',
             example_state1)"
  using method_call_unknown_method [of "''Ping''" example_env "'':1.1''"
      "''org.freedesktop.portal.Unique''" example_msg example_state1]
  by simp

end
